theory Spec2Isabelle
  imports Main "HOL-Library.Sublist"
begin

section \<open>Feed discovery of rss-agent-discovery (find-rss-feeds.ts)\<close>

text \<open>
  A shallow embedding of \<^verbatim>\<open>src/find-rss-feeds.ts\<close>. JavaScript strings are modelled as
  \<^typ>\<open>string\<close> (lists of 8-bit characters), \<^verbatim>\<open>null\<close>/\<^verbatim>\<open>undefined\<close> as \<^const>\<open>None\<close>,
  exceptions as values of a sum type, the module-level \<^verbatim>\<open>cliOptions\<close> object as a record
  that is passed explicitly, and insertion-ordered \<^verbatim>\<open>Map\<close>s as association lists.
  The HTML parser (cheerio), the platform's \<^verbatim>\<open>URL\<close> constructor and the network are
  not part of the repository: they are parameters, collected in the record \<open>platform\<close>.
\<close>

subsection \<open>String primitives of the platform\<close>

text \<open>\<^verbatim>\<open>s.startsWith(p)\<close>\<close>

fun startsWith :: "string \<Rightarrow> string \<Rightarrow> bool" where
  "startsWith s [] = True"
| "startsWith [] (p # ps) = False"
| "startsWith (c # cs) (p # ps) = (c = p \<and> startsWith cs ps)"

text \<open>\<^verbatim>\<open>s.includes(sub)\<close>: \<open>sub\<close> occurs in \<open>s\<close> as a contiguous run of characters.\<close>

fun str_includes :: "string \<Rightarrow> string \<Rightarrow> bool" where
  "str_includes [] sub = (sub = [])"
| "str_includes (c # cs) sub = (startsWith (c # cs) sub \<or> str_includes cs sub)"

text \<open>
  White space as \<^verbatim>\<open>trim\<close> and \<^verbatim>\<open>trimStart\<close> see it, restricted to the characters below
  256: tab, line feed, vertical tab, form feed, carriage return, space, no-break space.
\<close>

definition isWhiteSpace :: "char \<Rightarrow> bool" where
  "isWhiteSpace c = (of_char c \<in> {9, 10, 11, 12, 13, 32, 160 :: nat})"

definition trimStart :: "string \<Rightarrow> string" where
  "trimStart s = dropWhile isWhiteSpace s"

definition trim :: "string \<Rightarrow> string" where
  "trim s = rev (dropWhile isWhiteSpace (rev (dropWhile isWhiteSpace s)))"

text \<open>\<^verbatim>\<open>s.toLowerCase()\<close> on the letters A to Z; every other character is kept.\<close>

definition lowerChar :: "char \<Rightarrow> char" where
  "lowerChar c = (let n = (of_char c :: nat) in if 65 \<le> n \<and> n \<le> 90 then char_of (n + 32) else c)"

definition toLowerCase :: "string \<Rightarrow> string" where
  "toLowerCase s = map lowerChar s"

text \<open>
  \<^verbatim>\<open>s.split(sep)\<close> for a separator that is one character out of a class (\<^verbatim>\<open>'/'\<close>, or the
  regular expression \<^verbatim>\<open>/[,|]/\<close>): the pieces between separators, empty pieces included.
\<close>

fun split_on :: "(char \<Rightarrow> bool) \<Rightarrow> string \<Rightarrow> string list" where
  "split_on sep [] = [[]]"
| "split_on sep (c # cs) =
     (if sep c then [] # split_on sep cs
      else (case split_on sep cs of [] \<Rightarrow> [[c]] | w # ws \<Rightarrow> (c # w) # ws))"

text \<open>\<^verbatim>\<open>.filter(Boolean)\<close> on an array of strings keeps the non-empty ones.\<close>

definition filterBoolean :: "string list \<Rightarrow> string list" where
  "filterBoolean xs = filter (\<lambda>s. s \<noteq> []) xs"

text \<open>
  The Number value of a non-negative integer: the integer itself below 9007199254740992, and
  above it the nearest integer with 53 significant bits, ties to the even one.
  \<open>excessBits n\<close> is the number of bits of \<open>n\<close> beyond 53.
\<close>

function excessBits :: "int \<Rightarrow> nat" where
  "excessBits n = (if n < 9007199254740992 then 0 else Suc (excessBits (n div 2)))"
  by pat_completeness auto
termination
  by (relation "measure nat") auto

definition toNumber :: "int \<Rightarrow> int" where
  "toNumber n =
     (if n < 9007199254740992 then n
      else (let e = excessBits n;
                q = n div 2 ^ e;
                r = n mod 2 ^ e;
                half = 2 ^ (e - 1)
            in (if half < r \<or> (r = half \<and> odd q) then q + 1 else q) * 2 ^ e))"

text \<open>
  \<^verbatim>\<open>parseInt(s, 10)\<close>: leading white space and one sign are skipped, then the longest run
  of decimal digits is read and converted to a Number; \<^const>\<open>None\<close> is \<^verbatim>\<open>NaN\<close>. A run of
  digits beyond the largest finite Number (more than 308 digits) gives \<^verbatim>\<open>Infinity\<close> in
  the program and stays a finite integer here; the program only compares the value with 0
  and hands it to the timer and to \<^verbatim>\<open>slice\<close>, which treat both alike.
\<close>

definition isDigit :: "char \<Rightarrow> bool" where
  "isDigit c = (48 \<le> (of_char c :: nat) \<and> (of_char c :: nat) \<le> 57)"

definition digitValue :: "char \<Rightarrow> int" where
  "digitValue c = int (of_char c) - 48"

definition parseInt :: "string \<Rightarrow> int option" where
  "parseInt s =
     (let t = trimStart s;
          negative = (case t of [] \<Rightarrow> False | c # _ \<Rightarrow> c = CHR ''-'');
          r = (case t of [] \<Rightarrow> [] | c # cs \<Rightarrow> if c = CHR ''-'' \<or> c = CHR ''+'' then cs else t);
          ds = takeWhile isDigit r
      in if ds = [] then None
         else Some ((if negative then - 1 else 1)
                    * toNumber (foldl (\<lambda>a c. 10 * a + digitValue c) 0 ds)))"

text \<open>The decimal text of a status code, as a template literal prints it.\<close>

fun showNat :: "nat \<Rightarrow> string" where
  "showNat n = (if n < 10 then [char_of (48 + n)] else showNat (n div 10) @ [char_of (48 + n mod 10)])"

subsection \<open>Feed validation (scanURLForFeeds, lines 312 to 321)\<close>

text \<open>
  The test that \<^verbatim>\<open>scanURLForFeeds\<close> applies to the body \<open>text\<close> and the content type of a
  candidate that answered with a success status.
\<close>

definition hasXmlDeclaration :: "string \<Rightarrow> bool" where
  "hasXmlDeclaration text = (startsWith (trimStart text) ''<?xml'' \<or> str_includes text ''<?xml'')"

definition hasXmlContentType :: "string \<Rightarrow> bool" where
  "hasXmlContentType contentType =
     (str_includes contentType ''xml'' \<or> str_includes contentType ''rss''
      \<or> str_includes contentType ''atom'')"

definition hasRssOrFeed :: "string \<Rightarrow> bool" where
  "hasRssOrFeed text = (str_includes text ''<rss'' \<or> str_includes text ''<feed'')"

definition isHtml :: "string \<Rightarrow> bool" where
  "isHtml contentType = str_includes contentType ''text/html''"

definition isValidFeed :: "string \<Rightarrow> string \<Rightarrow> bool" where
  "isValidFeed text contentType =
     (hasRssOrFeed text \<and> (hasXmlDeclaration text \<or> hasXmlContentType contentType)
      \<and> \<not> isHtml contentType)"

subsection \<open>Data model (lines 19 to 81)\<close>

text \<open>\<^verbatim>\<open>CLIOptions\<close>; the field \<^verbatim>\<open>help\<close> is called \<open>help_opt\<close> here.\<close>

record CLIOptions =
  help_opt :: bool
  version :: bool
  verbose :: bool
  skipBlogs :: bool
  maxBlogs :: int
  customBlogPaths :: "string list option"
  timeout :: int

datatype FeedType = rss | atom | unknown

text \<open>\<^verbatim>\<open>FeedResult\<close>: the fields \<^verbatim>\<open>url\<close>, \<^verbatim>\<open>title\<close>, \<^verbatim>\<open>type\<close>.\<close>

record FeedResult =
  feed_url :: string
  feed_title :: string
  feed_type :: FeedType

text \<open>\<^verbatim>\<open>ScanResult\<close>: the fields \<^verbatim>\<open>html\<close> (a string or null) and \<^verbatim>\<open>feeds\<close>.\<close>

record ScanResult =
  scan_html :: "string option"
  scan_feeds :: "FeedResult list"

text \<open>\<^verbatim>\<open>DiscoveredResult\<close>: the fields \<^verbatim>\<open>url\<close>, \<^verbatim>\<open>feeds\<close>, \<^verbatim>\<open>error\<close> (a string or null).\<close>

record DiscoveredResult =
  result_url :: string
  result_feeds :: "FeedResult list"
  result_error :: "string option"

text \<open>The initial value of the module-level \<^verbatim>\<open>cliOptions\<close>.\<close>

definition cliOptions :: CLIOptions where
  "cliOptions = \<lparr>help_opt = False, version = False, verbose = False, skipBlogs = False,
     maxBlogs = 5, customBlogPaths = None, timeout = 10000\<rparr>"

definition BLOG_KEYWORDS :: "string list" where
  "BLOG_KEYWORDS = [''blog'', ''news'', ''articles'', ''posts'', ''updates'',
     ''journal'', ''insights'', ''stories'', ''press'', ''medium'',
     ''substack'', ''the-edge'', ''engineering-blog'', ''dev'',
     ''engineering'', ''developers'', ''community'']"

definition COMMON_BLOG_PATHS :: "string list" where
  "COMMON_BLOG_PATHS = [''/blog'', ''/news'', ''/articles'', ''/posts'', ''/updates'',
     ''/journal'', ''/insights'', ''/stories'', ''/press'', ''/medium'',
     ''/substack'', ''/the-edge'', ''/engineering-blog'', ''/engineering'',
     ''/developers'', ''/dev'', ''/community'']"

subsection \<open>The platform: HTML queries, URL resolution, network\<close>

text \<open>The fields of a \<^verbatim>\<open>URL\<close> object that the program reads.\<close>

record URL =
  href :: string
  origin :: string
  pathname :: string

text \<open>An element matched by \<^verbatim>\<open>a[href]\<close>: its \<^verbatim>\<open>href\<close> attribute and its text.\<close>

record anchorElement =
  a_href :: string
  a_text :: string

text \<open>
  An element matched by \<^verbatim>\<open>link[rel="alternate"]\<close>: its attributes \<^verbatim>\<open>type\<close>, \<^verbatim>\<open>href\<close> and
  \<^verbatim>\<open>title\<close>, each of which may be missing.
\<close>

record linkElement =
  attr_type :: "string option"
  attr_href :: "string option"
  attr_title :: "string option"

text \<open>What the program reads of a \<^verbatim>\<open>Response\<close>.\<close>

record response =
  ok :: bool
  status :: nat
  content_type :: "string option"
  body :: string

text \<open>
  A thrown value: an \<^verbatim>\<open>Error\<close> (also of a subclass such as \<^verbatim>\<open>TypeError\<close> or \<^verbatim>\<open>RangeError\<close>)
  with its message, or a \<^verbatim>\<open>DOMException\<close> with name and message.
\<close>

datatype exn = Error string | DOMException string string

fun message :: "exn \<Rightarrow> string" where
  "message (Error m) = m"
| "message (DOMException n m) = m"

fun isAbortError :: "exn \<Rightarrow> bool" where
  "isAbortError (Error m) = False"
| "isAbortError (DOMException n m) = (n = ''AbortError'')"

text \<open>
  The platform a run executes on. \<open>select_anchors html\<close> and \<open>select_alternate_links html\<close>
  are the elements that \<^verbatim>\<open>cheerio.load(html)\<close> yields for the two selectors, in document
  order. \<open>newURL r (Some b)\<close> is \<^verbatim>\<open>new URL(r, b)\<close> and \<open>newURL r None\<close> is \<^verbatim>\<open>new URL(r)\<close>,
  \<^const>\<open>None\<close> when the constructor throws. \<open>network u\<close> is what a GET of \<open>u\<close> does when
  it is left alone: the milliseconds it takes (an integer, as all times here), and a
  rejection or a response.
\<close>

record platform =
  select_anchors :: "string \<Rightarrow> anchorElement list"
  select_alternate_links :: "string \<Rightarrow> linkElement list"
  newURL :: "string \<Rightarrow> string option \<Rightarrow> URL option"
  network :: "string \<Rightarrow> int \<times> (exn + response)"

text \<open>The reason with which the signal of \<^verbatim>\<open>AbortSignal.timeout\<close> aborts a fetch.\<close>

definition timeoutReason :: exn where
  "timeoutReason = DOMException ''TimeoutError'' ''The operation was aborted due to timeout''"

text \<open>
  \<^verbatim>\<open>AbortSignal.timeout(delay)\<close> on Node for an integer \<open>delay\<close>: a \<^verbatim>\<open>RangeError\<close> is thrown
  unless \<open>delay\<close> is between 0 and 4294967295; otherwise the result is the time, in
  milliseconds from now, at which the signal fires. The timer takes a delay below 1 or
  above 2147483647 as 1.
\<close>

definition abortSignalTimeout :: "int \<Rightarrow> exn + int" where
  "abortSignalTimeout delay =
     (if delay < 0 \<or> 4294967295 < delay
      then Inl (Error ''The value of \"delay\" is out of range.'')
      else Inr (if 1 \<le> delay \<and> delay \<le> 2147483647 then delay else 1))"

text \<open>
  \<^verbatim>\<open>await fetch(url, { signal })\<close> (and the reading of the body) started at time \<open>now\<close>, in
  milliseconds since the signal was created, under a signal that fires at \<open>deadline\<close>:
  the outcome and the time at which the caller resumes. A fetch started after the signal
  has fired rejects at once; one that would end after the deadline rejects at the deadline.
\<close>

definition fetch :: "platform \<Rightarrow> int \<Rightarrow> int \<Rightarrow> string \<Rightarrow> (exn + response) \<times> int" where
  "fetch P deadline now u =
     (if deadline \<le> now then (Inl timeoutReason, now)
      else (case network P u of (d, outcome) \<Rightarrow>
              if deadline < now + d then (Inl timeoutReason, deadline) else (outcome, now + d)))"

subsection \<open>parseArgs (lines 83 to 123)\<close>

text \<open>
  The loop over \<^verbatim>\<open>args\<close>, as a recursion over the arguments not yet read. The state is
  \<^verbatim>\<open>cliOptions\<close> and the array \<^verbatim>\<open>urls\<close>; a thrown \<^verbatim>\<open>Error\<close> is \<^const>\<open>Inl\<close> of its message. An
  option that takes a value reads the next argument with \<^verbatim>\<open>args[++i]\<close>, so the recursion
  continues behind that argument.
\<close>

fun parseArgs_loop :: "CLIOptions \<Rightarrow> string list \<Rightarrow> string list \<Rightarrow> string + (CLIOptions \<times> string list)" where
  "parseArgs_loop opts urls [] = Inr (opts, urls)"
| "parseArgs_loop opts urls (arg # rest) =
     (if arg = ''--help'' \<or> arg = ''-h'' then parseArgs_loop (opts\<lparr>help_opt := True\<rparr>) urls rest
      else if arg = ''--version'' \<or> arg = ''-V'' then parseArgs_loop (opts\<lparr>version := True\<rparr>) urls rest
      else if arg = ''--verbose'' \<or> arg = ''-v'' then parseArgs_loop (opts\<lparr>verbose := True\<rparr>) urls rest
      else if arg = ''--no-blogs'' \<or> arg = ''--skip-blogs'' then
        parseArgs_loop (opts\<lparr>skipBlogs := True\<rparr>) urls rest
      else if arg = ''--max-blogs'' then
        (case rest of
           [] \<Rightarrow> Inl ''--max-blogs requires a value''
         | v # rest' \<Rightarrow>
             (case parseInt v of
                None \<Rightarrow> Inl (''--max-blogs requires a positive number, got: '' @ v)
              | Some n \<Rightarrow>
                  if n \<le> 0 then Inl (''--max-blogs requires a positive number, got: '' @ v)
                  else parseArgs_loop (opts\<lparr>maxBlogs := n\<rparr>) urls rest'))
      else if arg = ''--blog-paths'' then
        (case rest of
           [] \<Rightarrow> Inl ''--blog-paths requires a value''
         | v # rest' \<Rightarrow>
             if trim v = [] then Inl ''--blog-paths requires a value''
             else parseArgs_loop
                    (opts\<lparr>customBlogPaths :=
                       Some (filterBoolean (map trim (split_on (\<lambda>c. c = CHR '','' \<or> c = CHR ''|'') v)))\<rparr>)
                    urls rest')
      else if arg = ''--timeout'' then
        (case rest of
           [] \<Rightarrow> Inl ''--timeout requires a value''
         | v # rest' \<Rightarrow>
             (case parseInt v of
                None \<Rightarrow> Inl (''--timeout requires a positive number, got: '' @ v)
              | Some n \<Rightarrow>
                  if n \<le> 0 then Inl (''--timeout requires a positive number, got: '' @ v)
                  else parseArgs_loop (opts\<lparr>timeout := n\<rparr>) urls rest'))
      else if startsWith arg ''http://'' \<or> startsWith arg ''https://'' then
        parseArgs_loop opts (urls @ [arg]) rest
      else parseArgs_loop opts urls rest)"

definition parseArgs :: "CLIOptions \<Rightarrow> string list \<Rightarrow> string + (CLIOptions \<times> string list)" where
  "parseArgs opts args = parseArgs_loop opts [] args"

subsection \<open>extractBlogLinksFromHTML (lines 173 to 224)\<close>

text \<open>The objects \<^verbatim>\<open>{ text, path, href }\<close> collected in \<^verbatim>\<open>linkTextAndUrls\<close>.\<close>

record linkInfo =
  link_text :: string
  link_path :: string
  link_href :: string

text \<open>
  The callback of \<^verbatim>\<open>$('a[href]').each\<close> (lines 179 to 195): what one anchor appends to
  \<^verbatim>\<open>linkTextAndUrls\<close>. A \<^verbatim>\<open>URL\<close> constructor that throws is caught and the anchor skipped.
\<close>

definition anchorLink :: "platform \<Rightarrow> string \<Rightarrow> anchorElement \<Rightarrow> linkInfo list" where
  "anchorLink P baseUrl el =
     (let href' = a_href el;
          text = trim (toLowerCase (a_text el))
      in if href' \<noteq> [] then
           (case newURL P href' (Some baseUrl) of
              None \<Rightarrow> []
            | Some url \<Rightarrow>
                (case newURL P baseUrl None of
                   None \<Rightarrow> []
                 | Some base \<Rightarrow>
                     if origin url = origin base
                     then [\<lparr>link_text = text, link_path = pathname url, link_href = href url\<rparr>]
                     else []))
         else [])"

definition linkTextAndUrls :: "platform \<Rightarrow> string \<Rightarrow> string \<Rightarrow> linkInfo list" where
  "linkTextAndUrls P html baseUrl = concat (map (anchorLink P baseUrl) (select_anchors P html))"

text \<open>\<^verbatim>\<open>set.add(x)\<close> on an insertion-ordered \<^verbatim>\<open>Set\<close>, kept as a list without repetition.\<close>

definition setAdd :: "'a list \<Rightarrow> 'a \<Rightarrow> 'a list" where
  "setAdd s x = (if x \<in> set s then s else s @ [x])"

text \<open>\<^verbatim>\<open>link.path.split('/').filter(Boolean)\<close>: the segments of a path.\<close>

definition pathParts :: "string \<Rightarrow> string list" where
  "pathParts path = filterBoolean (split_on (\<lambda>c. c = CHR ''/'') path)"

text \<open>The test of \<^verbatim>\<open>BLOG_KEYWORDS.find\<close> (lines 203 to 206).\<close>

definition foundKeyword :: "linkInfo \<Rightarrow> string option" where
  "foundKeyword link =
     (let lowerPath = toLowerCase (link_path link)
      in find (\<lambda>keyword. str_includes (link_text link) keyword \<or> str_includes lowerPath keyword)
           BLOG_KEYWORDS)"

text \<open>
  One pass of the loop of lines 198 to 221 over the state \<^verbatim>\<open>(blogPaths, seenPaths)\<close>.
  \<^verbatim>\<open>if (foundKeyword)\<close> holds when a keyword was found and is not the empty string.
\<close>

definition blogLinkStep :: "string list \<times> string list \<Rightarrow> linkInfo \<Rightarrow> string list \<times> string list" where
  "blogLinkStep st link =
     (case st of (blogPaths, seenPaths) \<Rightarrow>
        if link_path link \<in> set seenPaths then (blogPaths, seenPaths)
        else (case foundKeyword link of
                None \<Rightarrow> (blogPaths, seenPaths)
              | Some keyword \<Rightarrow>
                  if keyword \<noteq> [] \<and> startsWith (link_path link) ''/'' \<and> link_path link \<noteq> ''/'' then
                    (let parts = pathParts (link_path link)
                     in if 1 \<le> length parts \<and> length parts \<le> 3 then
                          (let blogPath = ''/'' @ parts ! 0
                           in if blogPath \<notin> set seenPaths
                              then (setAdd blogPaths blogPath,
                                    setAdd (setAdd seenPaths blogPath) (link_path link))
                              else (blogPaths, seenPaths))
                        else (blogPaths, seenPaths))
                  else (blogPaths, seenPaths)))"

text \<open>The loop of lines 197 to 223 over the collected links, and its result \<^verbatim>\<open>Array.from(blogPaths)\<close>.\<close>

definition blogPathsOfLinks :: "linkInfo list \<Rightarrow> string list" where
  "blogPathsOfLinks links = fst (foldl blogLinkStep ([], []) links)"

definition extractBlogLinksFromHTML :: "platform \<Rightarrow> string \<Rightarrow> string \<Rightarrow> string list" where
  "extractBlogLinksFromHTML P html baseUrl = blogPathsOfLinks (linkTextAndUrls P html baseUrl)"

subsection \<open>discoverBlogSubdirectories (lines 226 to 243)\<close>

text \<open>\<^verbatim>\<open>xs.slice(0, n)\<close> for an integer \<open>n\<close>: a negative \<open>n\<close> counts from the end.\<close>

definition slice0 :: "'a list \<Rightarrow> int \<Rightarrow> 'a list" where
  "slice0 xs n = (if n < 0 then take (nat (int (length xs) + n)) xs else take (nat n) xs)"

text \<open>The loop of lines 235 to 239: push each path that \<^verbatim>\<open>blogPaths\<close> does not include yet.\<close>

definition pushMissing :: "string list \<Rightarrow> string list \<Rightarrow> string list" where
  "pushMissing blogPaths pathsToUse =
     foldl (\<lambda>acc path. if path \<notin> set acc then acc @ [path] else acc) blogPaths pathsToUse"

text \<open>
  \<^verbatim>\<open>if (html)\<close> holds for a string that is not empty; \<^verbatim>\<open>cliOptions.customBlogPaths\<close> is truthy
  when it is an array, also an empty one.
\<close>

definition discoverBlogSubdirectories ::
    "platform \<Rightarrow> CLIOptions \<Rightarrow> string \<Rightarrow> string option \<Rightarrow> string list" where
  "discoverBlogSubdirectories P opts baseUrl html =
     (let blogPaths = (case html of
                         None \<Rightarrow> []
                       | Some h \<Rightarrow> if h \<noteq> [] then extractBlogLinksFromHTML P h baseUrl else []);
          blogPaths' =
            (if length blogPaths = 0 \<or> customBlogPaths opts \<noteq> None then
               (let pathsToUse = (case customBlogPaths opts of
                                    Some custom \<Rightarrow> custom
                                  | None \<Rightarrow> COMMON_BLOG_PATHS)
                in pushMissing blogPaths pathsToUse)
             else blogPaths)
      in slice0 blogPaths' (maxBlogs opts))"

subsection \<open>scanURLForFeeds (lines 245 to 336)\<close>

text \<open>
  \<^verbatim>\<open>discoveredFeeds\<close> is a \<^verbatim>\<open>Map\<close> from the resolved URL to the feed, iterated in insertion
  order: an association list. \<open>setIfAbsent\<close> is the guarded \<^verbatim>\<open>set\<close> of lines 269 to 271 and
  289 to 296: \<^verbatim>\<open>if (!m.has(k)) m.set(k, v)\<close>.
\<close>

definition setIfAbsent :: "(string \<times> 'v) list \<Rightarrow> string \<Rightarrow> 'v \<Rightarrow> (string \<times> 'v) list" where
  "setIfAbsent m k v = (if k \<in> set (map fst m) then m else m @ [(k, v)])"

text \<open>
  The callback of \<^verbatim>\<open>$('link[rel="alternate"]').each\<close> (lines 260 to 279): the entry that one
  element declares, if any.
\<close>

definition declaredFeed :: "platform \<Rightarrow> string \<Rightarrow> linkElement \<Rightarrow> (string \<times> FeedResult) option" where
  "declaredFeed P url el =
     (case attr_type el of
        None \<Rightarrow> None
      | Some type \<Rightarrow>
          if type \<noteq> [] \<and> (str_includes type ''rss+xml'' \<or> str_includes type ''atom+xml'') then
            (let title = (case attr_title el of
                            None \<Rightarrow> ''RSS Feed''
                          | Some t \<Rightarrow> if t \<noteq> [] then t else ''RSS Feed'')
             in case attr_href el of
                  None \<Rightarrow> None
                | Some href' \<Rightarrow>
                    if href' \<noteq> [] then
                      (case newURL P href' (Some url) of
                         None \<Rightarrow> None
                       | Some u \<Rightarrow>
                           (let fullHref = href u;
                                feedType = (if str_includes type ''atom'' then atom else rss)
                            in Some (fullHref,
                                 \<lparr>feed_url = fullHref, feed_title = title, feed_type = feedType\<rparr>)))
                    else None)
          else None)"

definition declaredStep ::
    "platform \<Rightarrow> string \<Rightarrow> (string \<times> FeedResult) list \<Rightarrow> linkElement \<Rightarrow> (string \<times> FeedResult) list" where
  "declaredStep P url m el =
     (case declaredFeed P url el of None \<Rightarrow> m | Some (k, feed) \<Rightarrow> setIfAbsent m k feed)"

definition commonPaths :: "string list" where
  "commonPaths = [''rss.xml'', ''feed.xml'', ''rss'', ''atom'', ''atom.xml'', ''index.xml'',
     ''feeds/rss.xml'', ''feed'', ''rss/feed.xml'']"

text \<open>The body of the loop over \<^verbatim>\<open>commonPaths\<close> (lines 286 to 302): the entry of one path.\<close>

definition commonFeed :: "platform \<Rightarrow> string \<Rightarrow> string \<Rightarrow> (string \<times> FeedResult) option" where
  "commonFeed P url path =
     (case newURL P path (Some url) of
        None \<Rightarrow> None
      | Some u \<Rightarrow>
          (let candidateUrl = href u;
               type = (if str_includes path ''atom'' then atom else rss);
               lastPart = last (split_on (\<lambda>c. c = CHR ''/'') candidateUrl)
           in Some (candidateUrl,
                \<lparr>feed_url = candidateUrl,
                 feed_title = (if lastPart \<noteq> [] then lastPart else ''RSS Feed''),
                 feed_type = type\<rparr>)))"

definition commonStep ::
    "platform \<Rightarrow> string \<Rightarrow> (string \<times> FeedResult) list \<Rightarrow> string \<Rightarrow> (string \<times> FeedResult) list" where
  "commonStep P url m path =
     (case commonFeed P url path of None \<Rightarrow> m | Some (k, feed) \<Rightarrow> setIfAbsent m k feed)"

text \<open>The map after the first pass (lines 258 to 279) and after both passes (to line 302).\<close>

definition declaredFeeds :: "platform \<Rightarrow> string \<Rightarrow> string \<Rightarrow> (string \<times> FeedResult) list" where
  "declaredFeeds P html url = foldl (declaredStep P url) [] (select_alternate_links P html)"

definition discoveredFeeds :: "platform \<Rightarrow> string \<Rightarrow> string \<Rightarrow> (string \<times> FeedResult) list" where
  "discoveredFeeds P html url = foldl (commonStep P url) (declaredFeeds P html url) commonPaths"

text \<open>
  The validation loop (lines 304 to 329) over the entries of the map, one fetch after the
  other; \<open>now\<close> is the time at which the next fetch starts. A fetch that rejects is caught
  (line 324) and the loop goes on. \<^verbatim>\<open>res.headers.get('content-type') || ''\<close> is the empty
  string when the header is missing.
\<close>

fun validateFeeds ::
    "platform \<Rightarrow> int \<Rightarrow> (string \<times> FeedResult) list \<Rightarrow> int \<Rightarrow> FeedResult list \<Rightarrow> FeedResult list \<times> int" where
  "validateFeeds P deadline [] now validFeeds = (validFeeds, now)"
| "validateFeeds P deadline ((feedUrl, feed) # rest) now validFeeds =
     (case fetch P deadline now feedUrl of
        (Inl e, t) \<Rightarrow> validateFeeds P deadline rest t validFeeds
      | (Inr res, t) \<Rightarrow>
          if ok res then
            (let contentType = (case content_type res of None \<Rightarrow> [] | Some c \<Rightarrow> c);
                 text = body res
             in if isValidFeed text contentType
                then validateFeeds P deadline rest t (validFeeds @ [feed])
                else validateFeeds P deadline rest t validFeeds)
          else validateFeeds P deadline rest t validFeeds)"

text \<open>
  The \<^verbatim>\<open>try\<close> block of \<^verbatim>\<open>scanURLForFeeds\<close> started at time \<open>now\<close>: \<^const>\<open>Inl\<close> is what it throws
  (the rejected fetch of the page, or the \<^verbatim>\<open>Error\<close> of line 254 for a status that is not
  ok), and the second component is the time at which it ends.
\<close>

definition scanURLForFeeds_try :: "platform \<Rightarrow> int \<Rightarrow> int \<Rightarrow> string \<Rightarrow> (exn + ScanResult) \<times> int" where
  "scanURLForFeeds_try P deadline now url =
     (case fetch P deadline now url of
        (Inl e, t) \<Rightarrow> (Inl e, t)
      | (Inr res, t) \<Rightarrow>
          if \<not> ok res then
            (Inl (Error (''Failed to fetch '' @ url @ '': '' @ showNat (status res))), t)
          else
            (let html = body res
             in case validateFeeds P deadline (discoveredFeeds P html url) t [] of
                  (validFeeds, t') \<Rightarrow> (Inr \<lparr>scan_html = Some html, scan_feeds = validFeeds\<rparr>, t')))"

text \<open>
  \<^verbatim>\<open>scanURLForFeeds\<close>: the \<^verbatim>\<open>catch\<close> of lines 332 to 335 turns every exception of the
  \<^verbatim>\<open>try\<close> block into the result \<^verbatim>\<open>{ html: null, feeds: [] }\<close>.
\<close>

definition scanURLForFeeds :: "platform \<Rightarrow> int \<Rightarrow> int \<Rightarrow> string \<Rightarrow> ScanResult \<times> int" where
  "scanURLForFeeds P deadline now url =
     (case scanURLForFeeds_try P deadline now url of
        (Inl e, t) \<Rightarrow> (\<lparr>scan_html = None, scan_feeds = []\<rparr>, t)
      | (Inr r, t) \<Rightarrow> (r, t))"

subsection \<open>findRSSFeeds (lines 338 to 401)\<close>

text \<open>The guarded \<^verbatim>\<open>allFeeds.set\<close> of lines 347 to 351 and 371 to 375, over a list of feeds.\<close>

definition addFeeds :: "(string \<times> FeedResult) list \<Rightarrow> FeedResult list \<Rightarrow> (string \<times> FeedResult) list" where
  "addFeeds allFeeds feeds = foldl (\<lambda>m feed. setIfAbsent m (feed_url feed) feed) allFeeds feeds"

text \<open>
  Lines 357 to 363: the section paths resolved against \<^verbatim>\<open>baseUrl\<close>; a path for which the
  constructor throws becomes \<^verbatim>\<open>null\<close> and is filtered out.
\<close>

definition blogURLs :: "platform \<Rightarrow> string \<Rightarrow> string list \<Rightarrow> string list" where
  "blogURLs P baseUrl blogPaths =
     concat (map (\<lambda>path. case newURL P path (Some baseUrl) of None \<Rightarrow> [] | Some u \<Rightarrow> [href u])
               blogPaths)"

text \<open>
  The \<^verbatim>\<open>try\<close> block of \<^verbatim>\<open>findRSSFeeds\<close> under a signal that fires at \<open>deadline\<close>. The
  signal is created when the function starts, so the clock starts at 0. The section scans
  of \<^verbatim>\<open>Promise.allSettled\<close> all start when the scan of the root has ended, each runs on
  its own, and their results are merged in the order of \<^verbatim>\<open>blogURLs\<close>. Every callee catches
  its own exceptions, so the block always ends in its \<^verbatim>\<open>return\<close>.
\<close>

definition findRSSFeeds_try :: "platform \<Rightarrow> CLIOptions \<Rightarrow> int \<Rightarrow> string \<Rightarrow> exn + DiscoveredResult" where
  "findRSSFeeds_try P opts deadline baseUrl =
     (case scanURLForFeeds P deadline 0 baseUrl of
           (scanResult, t) \<Rightarrow>
             (let allFeeds = addFeeds [] (scan_feeds scanResult);
                  html = scan_html scanResult;
                  allFeeds' =
                    (if \<not> skipBlogs opts \<and> html \<noteq> None \<and> html \<noteq> Some [] then
                       (let blogPaths = discoverBlogSubdirectories P opts baseUrl html
                        in if length blogPaths > 0 then
                             (let blogResults =
                                    map (\<lambda>blogUrl. fst (scanURLForFeeds P deadline t blogUrl))
                                      (blogURLs P baseUrl blogPaths)
                              in foldl (\<lambda>m result. addFeeds m (scan_feeds result)) allFeeds blogResults)
                           else allFeeds)
                     else allFeeds)
              in Inr \<lparr>result_url = baseUrl, result_feeds = map snd allFeeds', result_error = None\<rparr>))"

text \<open>The \<^verbatim>\<open>catch\<close> block of lines 386 to 400.\<close>

definition findRSSFeeds_catch :: "string \<Rightarrow> exn \<Rightarrow> DiscoveredResult" where
  "findRSSFeeds_catch baseUrl e =
     (let errorMessage = message e;
          errorMessage' = (if isAbortError e then ''Timeout''
                           else if errorMessage = ''Timeout'' then ''Timeout''
                           else errorMessage)
      in \<lparr>result_url = baseUrl, result_feeds = [], result_error = Some errorMessage'\<rparr>)"

text \<open>
  \<^verbatim>\<open>findRSSFeeds\<close>: the promise it returns is rejected (\<^const>\<open>Inl\<close>) when the signal cannot be
  created, since line 340 is outside the \<^verbatim>\<open>try\<close>; otherwise it is fulfilled with the
  result of the \<^verbatim>\<open>try\<close> block or of the \<^verbatim>\<open>catch\<close> block.
\<close>

definition findRSSFeeds :: "platform \<Rightarrow> CLIOptions \<Rightarrow> string \<Rightarrow> exn + DiscoveredResult" where
  "findRSSFeeds P opts baseUrl =
     (let timeoutMs = timeout opts
      in case abortSignalTimeout timeoutMs of
           Inl e \<Rightarrow> Inl e
         | Inr deadline \<Rightarrow>
             (case findRSSFeeds_try P opts deadline baseUrl of
                Inr result \<Rightarrow> Inr result
              | Inl e \<Rightarrow> Inr (findRSSFeeds_catch baseUrl e)))"

subsection \<open>main (lines 403 to 489)\<close>

text \<open>The object printed as JSON; \<open>partialResults\<close> is \<^const>\<open>None\<close> when the key is absent.\<close>

record RunReport =
  success :: bool
  partialResults :: "bool option"
  results :: "DiscoveredResult list"

text \<open>\<^verbatim>\<open>if (result.error)\<close>: the error is a string and it is not empty.\<close>

definition errorTruthy :: "DiscoveredResult \<Rightarrow> bool" where
  "errorTruthy result = (case result_error result of None \<Rightarrow> False | Some m \<Rightarrow> m \<noteq> [])"

text \<open>The loop of lines 438 to 445 over the state \<^verbatim>\<open>(results, totalFeedsFound, hasError)\<close>.\<close>

definition tallyStep ::
    "DiscoveredResult list \<times> nat \<times> bool \<Rightarrow> DiscoveredResult \<Rightarrow> DiscoveredResult list \<times> nat \<times> bool" where
  "tallyStep st result =
     (case st of (results', totalFeedsFound, hasError) \<Rightarrow>
        if errorTruthy result then (results' @ [result], totalFeedsFound, True)
        else (results' @ [result], totalFeedsFound + length (result_feeds result), hasError))"

text \<open>
  Lines 429 to 468: from the results of the scans to the printed report and the exit code.
\<close>

definition mainReport :: "DiscoveredResult list \<Rightarrow> RunReport \<times> nat" where
  "mainReport scanResults =
     (case foldl tallyStep ([], 0, False) scanResults of
        (results', totalFeedsFound, hasError) \<Rightarrow>
          (let output = \<lparr>success = \<not> hasError, partialResults = None, results = results'\<rparr>;
               output' = (if hasError \<and> totalFeedsFound > 0
                          then output\<lparr>partialResults := Some True\<rparr> else output)
           in (output', if hasError then 2 else if totalFeedsFound = 0 then 1 else 0)))"

text \<open>
  \<^verbatim>\<open>await Promise.all(promises)\<close> for promises that are settled in the order of the list:
  the values in that order, or the reason of the first rejected one.
\<close>

fun promiseAll :: "(exn + 'a) list \<Rightarrow> exn + 'a list" where
  "promiseAll [] = Inr []"
| "promiseAll (Inl e # ps) = Inl e"
| "promiseAll (Inr x # ps) = (case promiseAll ps of Inl e \<Rightarrow> Inl e | Inr xs \<Rightarrow> Inr (x # xs))"

text \<open>
  \<^verbatim>\<open>main\<close> on the arguments after the program name. The promise is fulfilled with the
  exit code, here together with the report printed on standard output, if one is
  printed; it is rejected when a call of \<^verbatim>\<open>findRSSFeeds\<close> is. The version and the help text
  go to standard output too; they are not part of the model.
\<close>

definition main :: "platform \<Rightarrow> string list \<Rightarrow> exn + (RunReport option \<times> nat)" where
  "main P args =
     (case parseArgs cliOptions args of
        Inl e \<Rightarrow> Inr (None, 2)
      | Inr (opts, urls) \<Rightarrow>
          if version opts then Inr (None, 0)
          else if help_opt opts then Inr (None, 0)
          else if length urls = 0 then Inr (None, 2)
          else (case promiseAll (map (findRSSFeeds P opts) urls) of
                  Inl e \<Rightarrow> Inl e
                | Inr scanResults \<Rightarrow>
                    (case mainReport scanResults of
                       (output, exitCode) \<Rightarrow> Inr (Some output, exitCode))))"

text \<open>
  Lines 478 to 489, the run of the program: the process exits with the code that \<^verbatim>\<open>main\<close>
  returns; when \<^verbatim>\<open>main\<close> is rejected, the handler writes to standard error only and the
  process exits with 2. The result is what standard output holds of a report, and the
  exit code.
\<close>

definition mainModule :: "platform \<Rightarrow> string list \<Rightarrow> RunReport option \<times> nat" where
  "mainModule P args =
     (case main P args of
        Inr (output, exitCode) \<Rightarrow> (output, exitCode)
      | Inl e \<Rightarrow> (None, 2))"

subsection \<open>An example platform\<close>

text \<open>
  A small platform on which the examples below run. Its URL constructor resolves absolute
  \<^verbatim>\<open>http\<close> and \<^verbatim>\<open>https\<close> URLs without query or fragment, references that start with a
  slash, and references relative to the directory of the base path.
\<close>

definition absoluteURL :: "string \<Rightarrow> URL option" where
  "absoluteURL s =
     (let scheme = (if startsWith s ''https://'' then ''https://''
                    else if startsWith s ''http://'' then ''http://'' else []);
          rest = drop (length scheme) s;
          host = takeWhile (\<lambda>c. c \<noteq> CHR ''/'') rest;
          p = dropWhile (\<lambda>c. c \<noteq> CHR ''/'') rest;
          p' = (if p = [] then ''/'' else p)
      in if scheme = [] \<or> host = [] then None
         else Some \<lparr>href = scheme @ host @ p', origin = scheme @ host, pathname = p'\<rparr>)"

definition exampleURL :: "string \<Rightarrow> string option \<Rightarrow> URL option" where
  "exampleURL r b =
     (case absoluteURL r of
        Some u \<Rightarrow> Some u
      | None \<Rightarrow>
          (case b of
             None \<Rightarrow> None
           | Some b' \<Rightarrow>
               (case absoluteURL b' of
                  None \<Rightarrow> None
                | Some bu \<Rightarrow>
                    (let dir = rev (dropWhile (\<lambda>c. c \<noteq> CHR ''/'') (rev (pathname bu)));
                         p = (if startsWith r ''/'' then r else dir @ r)
                     in Some \<lparr>href = origin bu @ p, origin = origin bu, pathname = p\<rparr>))))"

text \<open>The pages of the example sites.\<close>

definition goodHtml :: string where
  "goodHtml = ''<html><head><link rel=\"alternate\" type=\"application/atom+xml\" title=\"Good\" href=\"/feed.atom\"></head><body></body></html>''"

definition sectionsHtml :: string where
  "sectionsHtml = ''<html><body><a href=\"/blog/2024/post\">Our Blog</a><a href=\"https://other.example/news\">News</a><a href=\"/a/b/c/d\">Press</a></body></html>''"

definition atomDocument :: string where
  "atomDocument = ''<?xml version=\"1.0\"?><feed xmlns=\"http://www.w3.org/2005/Atom\"></feed>''"

definition exampleAlternateLinks :: "string \<Rightarrow> linkElement list" where
  "exampleAlternateLinks html =
     (if html = goodHtml
      then [\<lparr>attr_type = Some ''application/atom+xml'', attr_href = Some ''/feed.atom'',
             attr_title = Some ''Good''\<rparr>]
      else [])"

definition exampleAnchors :: "string \<Rightarrow> anchorElement list" where
  "exampleAnchors html =
     (if html = sectionsHtml
      then [\<lparr>a_href = ''/blog/2024/post'', a_text = ''Our Blog''\<rparr>,
            \<lparr>a_href = ''https://other.example/news'', a_text = ''News''\<rparr>,
            \<lparr>a_href = ''/a/b/c/d'', a_text = ''Press''\<rparr>]
      else [])"

text \<open>
  The network: \<^verbatim>\<open>good.example\<close> serves its page and its Atom feed within 10 ms each,
  \<^verbatim>\<open>late.example\<close> serves the same page and feed but then stalls on every other path,
  \<^verbatim>\<open>slow.example\<close> needs a minute for its page, and fetches of \<^verbatim>\<open>bad.example\<close> reject
  with a network error. Every other URL answers 404.
\<close>

definition page :: "string \<Rightarrow> string \<Rightarrow> exn + response" where
  "page ctype text = Inr \<lparr>ok = True, status = 200, content_type = Some ctype, body = text\<rparr>"

definition notFound :: "exn + response" where
  "notFound = Inr \<lparr>ok = False, status = 404, content_type = Some ''text/html'', body = ''Not Found''\<rparr>"

definition exampleNetwork :: "string \<Rightarrow> int \<times> (exn + response)" where
  "exampleNetwork u =
     (if u = ''https://good.example'' then (10, page ''text/html'' goodHtml)
      else if u = ''https://good.example/feed.atom'' then (10, page ''application/atom+xml'' atomDocument)
      else if u = ''https://late.example'' then (10, page ''text/html'' goodHtml)
      else if u = ''https://late.example/feed.atom'' then (10, page ''application/atom+xml'' atomDocument)
      else if startsWith u ''https://late.example/'' then (60000, notFound)
      else if u = ''https://slow.example'' then (60000, page ''text/html'' goodHtml)
      else if startsWith u ''https://bad.example'' then (5, Inl (Error ''fetch failed''))
      else (10, notFound))"

definition examplePlatform :: platform where
  "examplePlatform = \<lparr>select_anchors = exampleAnchors, select_alternate_links = exampleAlternateLinks,
     newURL = exampleURL, network = exampleNetwork\<rparr>"

subsection \<open>Notions used in the statements about the link heuristic\<close>

text \<open>
  A collected link qualifies when a keyword matches its text or path, its path starts with
  a slash and has one to three segments. The section root of a path is a slash followed by
  its first segment. \<open>seenInv\<close> is the invariant of the loop of lines 198 to 221: the
  section roots are distinct, and every path marked as seen has its section root among them.
\<close>

definition qualifies :: "linkInfo \<Rightarrow> bool" where
  "qualifies l = (foundKeyword l \<noteq> None \<and> startsWith (link_path l) ''/''
      \<and> 1 \<le> length (pathParts (link_path l)) \<and> length (pathParts (link_path l)) \<le> 3)"

definition sectionRoot :: "string \<Rightarrow> string" where
  "sectionRoot path = ''/'' @ pathParts path ! 0"

definition seenInv :: "string list \<times> string list \<Rightarrow> bool" where
  "seenInv st = (case st of (bp, seen) \<Rightarrow>
      distinct bp \<and> (\<forall>p \<in> set seen. pathParts p \<noteq> [] \<and> sectionRoot p \<in> set bp))"

subsection \<open>Notions used in the statements about parseArgs\<close>

text \<open>
  The three kinds of argument that the loop of \<^verbatim>\<open>parseArgs\<close> tells apart by its
  comparisons: an option without a value, an option that reads the next argument as its
  value, and a URL (the test of line 118).
\<close>

definition isFlagOption :: "string \<Rightarrow> bool" where
  "isFlagOption arg = (arg = ''--help'' \<or> arg = ''-h'' \<or> arg = ''--version'' \<or> arg = ''-V''
     \<or> arg = ''--verbose'' \<or> arg = ''-v'' \<or> arg = ''--no-blogs'' \<or> arg = ''--skip-blogs'')"

definition isValueOption :: "string \<Rightarrow> bool" where
  "isValueOption arg = (arg = ''--max-blogs'' \<or> arg = ''--blog-paths'' \<or> arg = ''--timeout'')"

definition isUrlArg :: "string \<Rightarrow> bool" where
  "isUrlArg arg = (startsWith arg ''http://'' \<or> startsWith arg ''https://'')"

text \<open>
  Not from the source: the tokens of an argument list that are not the value of an option
  that takes one, reading from the left. This is what ``not consumed as an option's
  value'' means in the statements below.
\<close>

fun unconsumed :: "string list \<Rightarrow> string list" where
  "unconsumed [] = []"
| "unconsumed [a] = [a]"
| "unconsumed (a # v # rest) =
     (if isValueOption a then a # unconsumed rest else a # unconsumed (v # rest))"

subsection \<open>A notion used in the statements about main\<close>

text \<open>The value of \<^verbatim>\<open>totalFeedsFound\<close> after the loop of lines 438 to 445.\<close>

definition totalFeeds :: "DiscoveredResult list \<Rightarrow> nat" where
  "totalFeeds rs = sum_list (map (\<lambda>r. length (result_feeds r)) (filter (\<lambda>r. \<not> errorTruthy r) rs))"

section \<open>Properties\<close>

subsection \<open>String primitives\<close>

lemma startsWith_prefix: "startsWith s p = prefix p s"
  by (induction s p rule: startsWith.induct) auto

lemma str_includes_sublist: "str_includes s sub = sublist sub s"
  by (induction s) (auto simp: startsWith_prefix sublist_Cons_right)

lemma prefix_trimStart_sublist:
  assumes "prefix p (trimStart s)"
  shows "sublist p s"
proof -
  have "suffix (trimStart s) s"
    unfolding trimStart_def by (rule suffix_dropWhile)
  with assms show ?thesis
    unfolding sublist_altdef' by blast
qed

lemma hasXmlDeclaration_sublist: "hasXmlDeclaration text = sublist ''<?xml'' text"
  unfolding hasXmlDeclaration_def startsWith_prefix str_includes_sublist
  using prefix_trimStart_sublist by blast

lemma sublist_of_prefix: "sublist a p \<Longrightarrow> prefix p t \<Longrightarrow> sublist a t"
  using prefix_imp_sublist sublist_order.order_trans by blast

subsection \<open>Feed validation\<close>

text \<open>
  Claim C4. For every body and content type the validator accepts exactly when the body
  contains \<^verbatim>\<open><rss\<close> or \<^verbatim>\<open><feed\<close>, and the body contains \<^verbatim>\<open><?xml\<close> or the content type
  contains \<^verbatim>\<open>xml\<close>, \<^verbatim>\<open>rss\<close> or \<^verbatim>\<open>atom\<close>, and the content type does not contain
  \<^verbatim>\<open>text/html\<close>. In particular a content type that contains \<^verbatim>\<open>text/html\<close> is rejected
  whatever the body is, and a body that starts with an XML declaration followed by
  \<^verbatim>\<open><feed\<close> is accepted under the content type \<^verbatim>\<open>application/atom+xml\<close>. Containment is
  \<^const>\<open>sublist\<close>: the needle occurs as a contiguous run.
\<close>

theorem isValidFeed_rule:
  "(isValidFeed text contentType \<longleftrightarrow>
      (sublist ''<rss'' text \<or> sublist ''<feed'' text)
      \<and> (sublist ''<?xml'' text \<or> sublist ''xml'' contentType \<or> sublist ''rss'' contentType
           \<or> sublist ''atom'' contentType)
      \<and> \<not> sublist ''text/html'' contentType)
   \<and> (sublist ''text/html'' contentType \<longrightarrow> \<not> isValidFeed text contentType)
   \<and> (prefix ''<?xml version=\"1.0\"?><feed'' text \<longrightarrow> isValidFeed text ''application/atom+xml'')"
proof -
  have rule: "isValidFeed t c \<longleftrightarrow>
      (sublist ''<rss'' t \<or> sublist ''<feed'' t)
      \<and> (sublist ''<?xml'' t \<or> sublist ''xml'' c \<or> sublist ''rss'' c \<or> sublist ''atom'' c)
      \<and> \<not> sublist ''text/html'' c" for t c
    by (simp add: isValidFeed_def hasRssOrFeed_def hasXmlDeclaration_sublist
        hasXmlContentType_def isHtml_def str_includes_sublist)
  have html: "\<not> isValidFeed text contentType" if "sublist ''text/html'' contentType"
    using that by (simp add: rule)
  have atom: "isValidFeed text ''application/atom+xml''"
    if p: "prefix ''<?xml version=\"1.0\"?><feed'' text"
  proof -
    have "sublist ''<feed'' ''<?xml version=\"1.0\"?><feed''" by code_simp
    then have 1: "sublist ''<feed'' text" using p by (rule sublist_of_prefix)
    have "sublist ''<?xml'' ''<?xml version=\"1.0\"?><feed''" by code_simp
    then have 2: "sublist ''<?xml'' text" using p by (rule sublist_of_prefix)
    have 3: "\<not> sublist ''text/html'' ''application/atom+xml''" by code_simp
    show ?thesis using 1 2 3 by (simp add: rule)
  qed
  show ?thesis using rule html atom by blast
qed

theorem isValidFeed_rule_witness:
  "\<not> isValidFeed ''<?xml version=\"1.0\"?><feed xmlns=\"http://www.w3.org/2005/Atom\"></feed>''
       ''text/html; charset=utf-8''
   \<and> isValidFeed ''<?xml version=\"1.0\"?><feed xmlns=\"http://www.w3.org/2005/Atom\"></feed>''
       ''application/atom+xml''"
proof -
  have h: "sublist ''text/html'' ''text/html; charset=utf-8''" by code_simp
  have p: "prefix ''<?xml version=\"1.0\"?><feed''
     ''<?xml version=\"1.0\"?><feed xmlns=\"http://www.w3.org/2005/Atom\"></feed>''" by code_simp
  show ?thesis
    using isValidFeed_rule [of "''<?xml version=\"1.0\"?><feed xmlns=\"http://www.w3.org/2005/Atom\"></feed>''"
        "''text/html; charset=utf-8''"] h p
    by blast
qed

subsection \<open>The candidate map of scanURLForFeeds\<close>

lemma setIfAbsent_distinct:
  "distinct (map fst m) \<Longrightarrow> distinct (map fst (setIfAbsent m k v))"
  by (simp add: setIfAbsent_def)

lemma setIfAbsent_map_of: "map_of (setIfAbsent m k v) = map_of (m @ [(k, v)])"
proof (cases "k \<in> set (map fst m)")
  case True
  then obtain y where "map_of m k = Some y"
    by (metis map_of_eq_None_iff not_Some_eq set_map)
  then have "map_of (m @ [(k, v)]) x = map_of m x" for x
    by (simp add: map_add_def split: option.splits)
  with True show ?thesis by (auto simp: setIfAbsent_def)
next
  case False
  then show ?thesis by (simp add: setIfAbsent_def)
qed

lemma setIfAbsent_prefix: "prefix m (setIfAbsent m k v)"
  by (simp add: setIfAbsent_def)

lemma setIfAbsent_keys:
  "\<forall>(k', f) \<in> set m. g f = k' \<Longrightarrow> g v = k \<Longrightarrow> \<forall>(k', f) \<in> set (setIfAbsent m k v). g f = k'"
  by (auto simp: setIfAbsent_def)

lemma declaredFeed_key: "declaredFeed P url el = Some (k, f) \<Longrightarrow> feed_url f = k"
  by (auto simp: declaredFeed_def Let_def split: option.splits if_splits)

lemma commonFeed_key: "commonFeed P url path = Some (k, f) \<Longrightarrow> feed_url f = k"
  by (auto simp: commonFeed_def Let_def split: option.splits)

text \<open>
  A loop of guarded insertions keeps the keys distinct, keeps every feed under its own
  URL, only appends, and looks up like the list of all the entries it was offered.
\<close>

lemma insert_loop:
  fixes entry :: "'a \<Rightarrow> (string \<times> FeedResult) option"
  defines "step \<equiv> \<lambda>m x. case entry x of None \<Rightarrow> m | Some (k, f) \<Rightarrow> setIfAbsent m k f"
  assumes d: "distinct (map fst m)"
    and key: "\<forall>(k, f) \<in> set m. feed_url f = k"
    and ek: "\<And>x k f. entry x = Some (k, f) \<Longrightarrow> feed_url f = k"
  shows "distinct (map fst (foldl step m xs))
       \<and> (\<forall>(k, f) \<in> set (foldl step m xs). feed_url f = k)
       \<and> prefix m (foldl step m xs)
       \<and> map_of (foldl step m xs) = map_of (m @ List.map_filter entry xs)"
  using d key
proof (induction xs arbitrary: m)
  case Nil
  then show ?case by simp
next
  case (Cons x xs)
  show ?case
  proof (cases "entry x")
    case None
    then have "step m x = m" by (simp add: step_def)
    with Cons None show ?thesis by simp
  next
    case (Some kf)
    obtain k f where kf: "kf = (k, f)" by (cases kf)
    have s: "step m x = setIfAbsent m k f" by (simp add: step_def Some kf)
    have d': "distinct (map fst (step m x))"
      unfolding s using Cons.prems(1) by (rule setIfAbsent_distinct)
    have k': "\<forall>(k', f') \<in> set (step m x). feed_url f' = k'"
      unfolding s using Cons.prems(2) ek[of x k f] Some kf by (intro setIfAbsent_keys) auto
    note ih = Cons.IH[OF d' k']
    have p: "prefix m (step m x)" unfolding s by (rule setIfAbsent_prefix)
    have m: "map_of (step m x @ List.map_filter entry xs) = map_of (m @ List.map_filter entry (x # xs))"
      unfolding s using setIfAbsent_map_of[of m k f]
      by (simp add: Some kf)
    from ih p m show ?thesis
      by (auto intro: prefix_order.order_trans)
  qed
qed

lemma declaredFeeds_props:
  "distinct (map fst (declaredFeeds P html url))
   \<and> (\<forall>(k, f) \<in> set (declaredFeeds P html url). feed_url f = k)
   \<and> map_of (declaredFeeds P html url)
       = map_of (List.map_filter (declaredFeed P url) (select_alternate_links P html))"
proof -
  have eq: "declaredStep P url = (\<lambda>m x. case declaredFeed P url x of None \<Rightarrow> m | Some (k, f) \<Rightarrow> setIfAbsent m k f)"
    by (intro ext) (simp add: declaredStep_def)
  show ?thesis
    unfolding declaredFeeds_def eq
    using insert_loop[of "[]" "declaredFeed P url" "select_alternate_links P html"] declaredFeed_key
    by simp
qed

text \<open>
  Claim C8. For every HTML and base URL, the candidate map built from the declared
  alternate links and then from the conventional paths has no two entries with the same
  resolved URL (neither as key nor as the URL of the feed), and the first occurrence wins:
  the entries of the first pass stay where they are, and looking a URL up gives the first
  entry offered for it, declared links before conventional paths.
\<close>

theorem discoveredFeeds_first_wins:
  "distinct (map fst (discoveredFeeds P html url))
   \<and> distinct (map (\<lambda>(k, f). feed_url f) (discoveredFeeds P html url))
   \<and> prefix (declaredFeeds P html url) (discoveredFeeds P html url)
   \<and> map_of (discoveredFeeds P html url)
       = map_of (List.map_filter (declaredFeed P url) (select_alternate_links P html)
                 @ List.map_filter (commonFeed P url) commonPaths)"
proof -
  let ?D = "declaredFeeds P html url"
  have eq: "commonStep P url = (\<lambda>m x. case commonFeed P url x of None \<Rightarrow> m | Some (k, f) \<Rightarrow> setIfAbsent m k f)"
    by (intro ext) (simp add: commonStep_def)
  have loop: "distinct (map fst (discoveredFeeds P html url))
       \<and> (\<forall>(k, f) \<in> set (discoveredFeeds P html url). feed_url f = k)
       \<and> prefix ?D (discoveredFeeds P html url)
       \<and> map_of (discoveredFeeds P html url) = map_of (?D @ List.map_filter (commonFeed P url) commonPaths)"
    unfolding discoveredFeeds_def eq
    using insert_loop[of ?D "commonFeed P url" commonPaths] declaredFeeds_props[of P html url] commonFeed_key
    by blast
  have same: "map (\<lambda>(k, f). feed_url f) (discoveredFeeds P html url) = map fst (discoveredFeeds P html url)"
    using loop by (intro map_cong) auto
  have "map_of (?D @ List.map_filter (commonFeed P url) commonPaths)
      = map_of (List.map_filter (declaredFeed P url) (select_alternate_links P html)
                 @ List.map_filter (commonFeed P url) commonPaths)"
    using declaredFeeds_props[of P html url] by simp
  moreover have "distinct (map (\<lambda>(k, f). feed_url f) (discoveredFeeds P html url))"
    unfolding same using loop by blast
  ultimately show ?thesis using loop by metis
qed

subsection \<open>The link heuristic of extractBlogLinksFromHTML\<close>

lemma split_on_no_sep: "\<forall>w \<in> set (split_on sep s). \<forall>c \<in> set w. \<not> sep c"
  by (induction s) (auto split: list.splits)

lemma split_on_nonempty: "split_on sep s \<noteq> []"
  by (induction s) (auto split: list.splits)

lemma split_on_single: "\<forall>c \<in> set s. \<not> sep c \<Longrightarrow> split_on sep s = [s]"
  by (induction s) auto

lemma pathParts_member: "q \<in> set (pathParts p) \<Longrightarrow> q \<noteq> [] \<and> CHR ''/'' \<notin> set q"
  using split_on_no_sep[of "\<lambda>c. c = CHR ''/''" p]
  by (auto simp: pathParts_def filterBoolean_def)

lemma pathParts_root:
  assumes "q \<in> set (pathParts p)"
  shows "pathParts (''/'' @ q) = [q]"
proof -
  from assms have q: "q \<noteq> []" "\<forall>c \<in> set q. \<not> c = CHR ''/''"
    using pathParts_member by auto
  then have "split_on (\<lambda>c. c = CHR ''/'') q = [q]"
    by (intro split_on_single) simp
  with q show ?thesis by (simp add: pathParts_def filterBoolean_def)
qed

lemma foundKeyword_nonempty: "foundKeyword l = Some k \<Longrightarrow> k \<noteq> []"
proof -
  assume "foundKeyword l = Some k"
  then have "k \<in> set BLOG_KEYWORDS"
    unfolding foundKeyword_def Let_def find_Some_iff by (metis nth_mem)
  then show ?thesis by (auto simp: BLOG_KEYWORDS_def)
qed

lemma pathParts_slash: "pathParts ''/'' = []"
  by (simp add: pathParts_def filterBoolean_def)

lemma blogLinkStep_cases:
  "blogLinkStep (bp, seen) l =
     (if link_path l \<notin> set seen \<and> qualifies l \<and> sectionRoot (link_path l) \<notin> set seen
      then (setAdd bp (sectionRoot (link_path l)),
            setAdd (setAdd seen (sectionRoot (link_path l))) (link_path l))
      else (bp, seen))"
proof (cases "foundKeyword l")
  case None
  then show ?thesis by (simp add: blogLinkStep_def qualifies_def)
next
  case (Some k)
  then have k: "k \<noteq> []" by (rule foundKeyword_nonempty)
  have "link_path l \<noteq> ''/''" if "1 \<le> length (pathParts (link_path l))"
    using that pathParts_slash by auto
  then show ?thesis
    using Some k by (auto simp: blogLinkStep_def qualifies_def sectionRoot_def Let_def)
qed

lemma sectionRoot_idem:
  assumes "pathParts p \<noteq> []"
  shows "pathParts (sectionRoot p) \<noteq> [] \<and> sectionRoot (sectionRoot p) = sectionRoot p"
proof -
  from assms have "pathParts p ! 0 \<in> set (pathParts p)" by simp
  then have "pathParts (sectionRoot p) = [pathParts p ! 0]"
    unfolding sectionRoot_def by (rule pathParts_root)
  then show ?thesis by (simp add: sectionRoot_def)
qed

lemma blogLinkStep_inv:
  assumes "seenInv st"
  shows "seenInv (blogLinkStep st l)
       \<and> set (fst (blogLinkStep st l))
           = set (fst st) \<union> (if qualifies l then {sectionRoot (link_path l)} else {})"
proof -
  obtain bp seen where st: "st = (bp, seen)" by (cases st)
  from assms have d: "distinct bp"
    and s: "\<And>p. p \<in> set seen \<Longrightarrow> pathParts p \<noteq> [] \<and> sectionRoot p \<in> set bp"
    by (auto simp: seenInv_def st)
  let ?r = "sectionRoot (link_path l)"
  show ?thesis
  proof (cases "link_path l \<notin> set seen \<and> qualifies l \<and> ?r \<notin> set seen")
    case True
    then have ne: "pathParts (link_path l) \<noteq> []" by (auto simp: qualifies_def)
    have step: "blogLinkStep st l = (setAdd bp ?r, setAdd (setAdd seen ?r) (link_path l))"
      using True by (simp add: st blogLinkStep_cases)
    have "seenInv (setAdd bp ?r, setAdd (setAdd seen ?r) (link_path l))"
      using d s ne sectionRoot_idem[OF ne]
      by (auto simp: seenInv_def setAdd_def)
    moreover have "set (setAdd bp ?r) = set bp \<union> {?r}"
      by (auto simp: setAdd_def)
    ultimately show ?thesis unfolding step using True by (simp add: st)
  next
    case False
    then have step: "blogLinkStep st l = st" by (auto simp: st blogLinkStep_cases)
    have "?r \<in> set bp" if q: "qualifies l"
    proof (cases "link_path l \<in> set seen")
      case True
      then show ?thesis using s by blast
    next
      case nseen: False
      with False q have "?r \<in> set seen" by blast
      then have "sectionRoot ?r \<in> set bp" using s by blast
      moreover from q have "pathParts (link_path l) \<noteq> []" by (auto simp: qualifies_def)
      ultimately show ?thesis using sectionRoot_idem by simp
    qed
    then show ?thesis unfolding step using assms by (auto simp: st)
  qed
qed

lemma blogLinks_loop:
  "seenInv st \<Longrightarrow>
     seenInv (foldl blogLinkStep st links)
     \<and> set (fst (foldl blogLinkStep st links))
         = set (fst st) \<union> {sectionRoot (link_path l) | l. l \<in> set links \<and> qualifies l}"
proof (induction links arbitrary: st)
  case Nil
  then show ?case by simp
next
  case (Cons l links)
  from blogLinkStep_inv[OF Cons.prems, of l]
  have i: "seenInv (blogLinkStep st l)"
    and e: "set (fst (blogLinkStep st l)) = set (fst st) \<union> (if qualifies l then {sectionRoot (link_path l)} else {})"
    by blast+
  from Cons.IH[OF i] e show ?case by auto
qed

lemma blogPathsOfLinks_set:
  "set (blogPathsOfLinks links) = {sectionRoot (link_path l) | l. l \<in> set links \<and> qualifies l}"
  and blogPathsOfLinks_distinct: "distinct (blogPathsOfLinks links)"
proof -
  have "seenInv ([], [])" by (simp add: seenInv_def)
  from blogLinks_loop[OF this, of links]
  show "set (blogPathsOfLinks links) = {sectionRoot (link_path l) | l. l \<in> set links \<and> qualifies l}"
    and "distinct (blogPathsOfLinks links)"
    by (auto simp: blogPathsOfLinks_def seenInv_def split: prod.splits)
qed



lemma anchorLink_member:
  assumes "l \<in> set (anchorLink P baseUrl el)"
  shows "\<exists>u b. newURL P (a_href el) (Some baseUrl) = Some u \<and> newURL P baseUrl None = Some b
           \<and> origin u = origin b \<and> link_path l = pathname u"
proof (cases "a_href el = []")
  case True
  then have "anchorLink P baseUrl el = []" by (simp add: anchorLink_def Let_def)
  with assms show ?thesis by simp
next
  case href: False
  show ?thesis
  proof (cases "newURL P (a_href el) (Some baseUrl)")
    case None
    with href have "anchorLink P baseUrl el = []" by (simp add: anchorLink_def Let_def)
    with assms show ?thesis by simp
  next
    case u: (Some u)
    show ?thesis
    proof (cases "newURL P baseUrl None")
      case None
      with href u have "anchorLink P baseUrl el = []" by (simp add: anchorLink_def Let_def)
      with assms show ?thesis by simp
    next
      case b: (Some b)
      show ?thesis
      proof (cases "origin u = origin b")
        case True
        with href u b have "anchorLink P baseUrl el
            = [\<lparr>link_text = trim (toLowerCase (a_text el)), link_path = pathname u, link_href = href u\<rparr>]"
          by (simp add: anchorLink_def Let_def)
        with assms have "link_path l = pathname u" by simp
        with True u b show ?thesis by simp
      next
        case False
        with href u b have "anchorLink P baseUrl el = []" by (simp add: anchorLink_def Let_def)
        with assms show ?thesis by simp
      qed
    qed
  qed
qed
lemma linkTextAndUrls_origin:
  assumes "l \<in> set (linkTextAndUrls P html baseUrl)"
  shows "\<exists>el \<in> set (select_anchors P html). \<exists>u b.
           newURL P (a_href el) (Some baseUrl) = Some u \<and> newURL P baseUrl None = Some b
           \<and> origin u = origin b \<and> link_path l = pathname u"
proof -
  from assms obtain el where el: "el \<in> set (select_anchors P html)" and l: "l \<in> set (anchorLink P baseUrl el)"
    by (auto simp: linkTextAndUrls_def)
  from anchorLink_member[OF l] el show ?thesis by blast
qed

lemma anchorLink_cross_origin:
  assumes "newURL P (a_href el) (Some baseUrl) = Some u" "newURL P baseUrl None = Some b"
    "origin u \<noteq> origin b"
  shows "anchorLink P baseUrl el = []"
  using assms by (simp add: anchorLink_def Let_def)




text \<open>
  Claim C9. Every section path in the result is the section root of the path of an
  anchor whose resolved URL has the origin of the base URL; an anchor that resolves to a
  different origin contributes nothing: the result is that of the page without it.
\<close>

theorem section_paths_same_origin:
  "(p \<in> set (extractBlogLinksFromHTML P html baseUrl)
     \<longrightarrow> (\<exists>el \<in> set (select_anchors P html). \<exists>u b.
            newURL P (a_href el) (Some baseUrl) = Some u \<and> newURL P baseUrl None = Some b
            \<and> origin u = origin b \<and> p = ''/'' @ pathParts (pathname u) ! 0))
   \<and> (newURL P (a_href el') (Some baseUrl) = Some u' \<and> newURL P baseUrl None = Some b'
       \<and> origin u' \<noteq> origin b' \<and> select_anchors P html = xs @ el' # ys
     \<longrightarrow> extractBlogLinksFromHTML P html baseUrl
           = blogPathsOfLinks (concat (map (anchorLink P baseUrl) (xs @ ys))))"
proof (intro conjI impI)
  assume "p \<in> set (extractBlogLinksFromHTML P html baseUrl)"
  then obtain l where l: "l \<in> set (linkTextAndUrls P html baseUrl)" and p: "p = sectionRoot (link_path l)"
    unfolding extractBlogLinksFromHTML_def blogPathsOfLinks_set by blast
  from linkTextAndUrls_origin[OF l] obtain el u b
    where "el \<in> set (select_anchors P html)" "newURL P (a_href el) (Some baseUrl) = Some u"
      "newURL P baseUrl None = Some b" "origin u = origin b" "link_path l = pathname u"
    by blast
  moreover from this p have "p = ''/'' @ pathParts (pathname u) ! 0"
    by (simp add: sectionRoot_def)
  ultimately show "\<exists>el \<in> set (select_anchors P html). \<exists>u b.
            newURL P (a_href el) (Some baseUrl) = Some u \<and> newURL P baseUrl None = Some b
            \<and> origin u = origin b \<and> p = ''/'' @ pathParts (pathname u) ! 0"
    by blast
next
  assume a: "newURL P (a_href el') (Some baseUrl) = Some u' \<and> newURL P baseUrl None = Some b'
       \<and> origin u' \<noteq> origin b' \<and> select_anchors P html = xs @ el' # ys"
  then have "anchorLink P baseUrl el' = []"
    using anchorLink_cross_origin by blast
  with a show "extractBlogLinksFromHTML P html baseUrl
           = blogPathsOfLinks (concat (map (anchorLink P baseUrl) (xs @ ys)))"
    by (simp add: extractBlogLinksFromHTML_def linkTextAndUrls_def)
qed

theorem section_paths_same_origin_witness:
  "(\<exists>el \<in> set (select_anchors examplePlatform sectionsHtml). \<exists>u b.
       newURL examplePlatform (a_href el) (Some ''https://blog.example'') = Some u
       \<and> newURL examplePlatform ''https://blog.example'' None = Some b
       \<and> origin u = origin b \<and> ''/blog'' = ''/'' @ pathParts (pathname u) ! 0)
   \<and> extractBlogLinksFromHTML examplePlatform sectionsHtml ''https://blog.example''
       = blogPathsOfLinks (concat (map (anchorLink examplePlatform ''https://blog.example'')
           [\<lparr>a_href = ''/blog/2024/post'', a_text = ''Our Blog''\<rparr>,
            \<lparr>a_href = ''/a/b/c/d'', a_text = ''Press''\<rparr>]))"
proof -
  let ?P = examplePlatform and ?b = "''https://blog.example''"
  let ?el = "\<lparr>a_href = ''https://other.example/news'', a_text = ''News''\<rparr>"
  let ?u = "\<lparr>href = ''https://other.example/news'', origin = ''https://other.example'', pathname = ''/news''\<rparr>"
  let ?bu = "\<lparr>href = ''https://blog.example/'', origin = ''https://blog.example'', pathname = ''/''\<rparr>"
  have 1: "''/blog'' \<in> set (extractBlogLinksFromHTML ?P sectionsHtml ?b)" by code_simp
  have 2: "newURL ?P (a_href ?el) (Some ?b) = Some ?u" by code_simp
  have 3: "newURL ?P ?b None = Some ?bu" by code_simp
  have 4: "origin ?u \<noteq> origin ?bu" by simp
  have 5: "select_anchors ?P sectionsHtml
      = [\<lparr>a_href = ''/blog/2024/post'', a_text = ''Our Blog''\<rparr>] @ ?el # [\<lparr>a_href = ''/a/b/c/d'', a_text = ''Press''\<rparr>]"
    by code_simp
  show ?thesis
    using section_paths_same_origin [of "''/blog''" ?P sectionsHtml ?b ?el ?u ?bu
        "[\<lparr>a_href = ''/blog/2024/post'', a_text = ''Our Blog''\<rparr>]" "[\<lparr>a_href = ''/a/b/c/d'', a_text = ''Press''\<rparr>]"]
      1 2 3 4 5
    by simp
qed

subsection \<open>discoverBlogSubdirectories with custom paths\<close>

lemma remdups_snoc: "remdups (ys @ [p]) = remdups (filter (\<lambda>x. x \<noteq> p) ys) @ [p]"
  by (induction ys) auto

lemma first_occurrences_Cons:
  "rev (remdups (rev (p # xs))) = p # rev (remdups (rev (filter (\<lambda>x. x \<noteq> p) xs)))"
proof -
  have "remdups (rev (p # xs)) = remdups (filter (\<lambda>x. x \<noteq> p) (rev xs)) @ [p]"
    using remdups_snoc[of "rev xs" p] by simp
  then show ?thesis by (simp only: rev_append rev_filter rev.simps append.simps rev_rev_ident)
qed

lemma pushMissing_eq:
  "pushMissing bp ps = bp @ rev (remdups (rev (filter (\<lambda>p. p \<notin> set bp) ps)))"
proof (induction ps arbitrary: bp)
  case Nil
  then show ?case by (simp add: pushMissing_def)
next
  case (Cons p ps)
  have unfold: "pushMissing bp (p # ps) = pushMissing (if p \<notin> set bp then bp @ [p] else bp) ps"
    by (simp add: pushMissing_def)
  show ?case
  proof (cases "p \<in> set bp")
    case True
    then show ?thesis unfolding unfold using Cons.IH[of bp] by simp
  next
    case False
    have f: "filter (\<lambda>x. x \<notin> set (bp @ [p])) ps = filter (\<lambda>x. x \<noteq> p) (filter (\<lambda>x. x \<notin> set bp) ps)"
      by (induction ps) auto
    have "pushMissing bp (p # ps) = pushMissing (bp @ [p]) ps"
      unfolding unfold using False by simp
    also have "\<dots> = (bp @ [p]) @ rev (remdups (rev (filter (\<lambda>x. x \<notin> set (bp @ [p])) ps)))"
      by (rule Cons.IH)
    also have "\<dots> = bp @ (p # rev (remdups (rev (filter (\<lambda>x. x \<noteq> p) (filter (\<lambda>x. x \<notin> set bp) ps)))))"
      unfolding f by simp
    also have "\<dots> = bp @ rev (remdups (rev (p # filter (\<lambda>x. x \<notin> set bp) ps)))"
      by (simp only: first_occurrences_Cons)
    also have "p # filter (\<lambda>x. x \<notin> set bp) ps = filter (\<lambda>x. x \<notin> set bp) (p # ps)"
      using False by simp
    finally show ?thesis .
  qed
qed

lemma first_occurrences_distinct: "distinct xs \<Longrightarrow> rev (remdups (rev xs)) = xs"
  by (simp add: distinct_remdups_id)

text \<open>
  Claim C6 says that with \<^verbatim>\<open>customBlogPaths\<close> set the result is exactly the override list
  truncated to \<^verbatim>\<open>maxBlogs\<close>, whatever the HTML is. The function appends the override
  paths to the roots that the link heuristic found (line 233 takes the branch, line 236
  skips what is already there). On a page with a link to \<^verbatim>\<open>/blog/2024/post\<close> and the
  override list \<^verbatim>\<open>/custom1\<close>, \<^verbatim>\<open>/custom2\<close> the result starts with \<^verbatim>\<open>/blog\<close>.
\<close>

theorem custom_paths_not_exact:
  "customBlogPaths (cliOptions\<lparr>customBlogPaths := Some [''/custom1'', ''/custom2'']\<rparr>)
     = Some [''/custom1'', ''/custom2'']
   \<and> discoverBlogSubdirectories examplePlatform
       (cliOptions\<lparr>customBlogPaths := Some [''/custom1'', ''/custom2'']\<rparr>)
       ''https://blog.example'' (Some sectionsHtml)
     = [''/blog'', ''/custom1'', ''/custom2'']
   \<and> discoverBlogSubdirectories examplePlatform
       (cliOptions\<lparr>customBlogPaths := Some [''/custom1'', ''/custom2'']\<rparr>)
       ''https://blog.example'' (Some sectionsHtml)
     \<noteq> take (nat (maxBlogs (cliOptions\<lparr>customBlogPaths := Some [''/custom1'', ''/custom2'']\<rparr>)))
         [''/custom1'', ''/custom2'']"
  by code_simp

text \<open>
  Claim C6, amended. With \<^verbatim>\<open>customBlogPaths\<close> set and \<^verbatim>\<open>maxBlogs\<close> not negative, the result
  is the first \<^verbatim>\<open>maxBlogs\<close> entries of: the roots that the link heuristic finds in the HTML
  (none without HTML), followed by the override paths that are not among them, each once,
  in the order of their first occurrence. It is exactly the override list truncated to
  \<^verbatim>\<open>maxBlogs\<close> when the heuristic finds no root and the override list repeats no path.
\<close>

theorem custom_paths_appended:
  "customBlogPaths opts = Some custom \<and> 0 \<le> maxBlogs opts \<longrightarrow>
     discoverBlogSubdirectories P opts baseUrl html
       = take (nat (maxBlogs opts))
           ((case html of None \<Rightarrow> [] | Some h \<Rightarrow> if h = [] then [] else extractBlogLinksFromHTML P h baseUrl)
            @ rev (remdups (rev (filter
                (\<lambda>p. p \<notin> set (case html of None \<Rightarrow> []
                                 | Some h \<Rightarrow> if h = [] then [] else extractBlogLinksFromHTML P h baseUrl))
                custom))))
     \<and> ((case html of None \<Rightarrow> [] | Some h \<Rightarrow> if h = [] then [] else extractBlogLinksFromHTML P h baseUrl) = []
          \<and> distinct custom
        \<longrightarrow> discoverBlogSubdirectories P opts baseUrl html = take (nat (maxBlogs opts)) custom)"
proof (intro impI)
  let ?heur = "case html of None \<Rightarrow> [] | Some h \<Rightarrow> if h = [] then [] else extractBlogLinksFromHTML P h baseUrl"
  assume a: "customBlogPaths opts = Some custom \<and> 0 \<le> maxBlogs opts"
  have h: "(case html of None \<Rightarrow> [] | Some h \<Rightarrow> if h \<noteq> [] then extractBlogLinksFromHTML P h baseUrl else []) = ?heur"
    by (simp split: option.splits)
  from a have "discoverBlogSubdirectories P opts baseUrl html = take (nat (maxBlogs opts)) (pushMissing ?heur custom)"
    unfolding discoverBlogSubdirectories_def h by (simp add: Let_def slice0_def)
  then have gen: "discoverBlogSubdirectories P opts baseUrl html
       = take (nat (maxBlogs opts)) (?heur @ rev (remdups (rev (filter (\<lambda>p. p \<notin> set ?heur) custom))))"
    by (simp only: pushMissing_eq)
  have "discoverBlogSubdirectories P opts baseUrl html = take (nat (maxBlogs opts)) custom"
    if "?heur = [] \<and> distinct custom"
    using that gen by (simp add: first_occurrences_distinct)
  with gen show "discoverBlogSubdirectories P opts baseUrl html
       = take (nat (maxBlogs opts)) (?heur @ rev (remdups (rev (filter (\<lambda>p. p \<notin> set ?heur) custom))))
     \<and> (?heur = [] \<and> distinct custom
        \<longrightarrow> discoverBlogSubdirectories P opts baseUrl html = take (nat (maxBlogs opts)) custom)"
    by blast
qed

theorem custom_paths_appended_witness:
  "discoverBlogSubdirectories examplePlatform
       (cliOptions\<lparr>customBlogPaths := Some [''/a'', ''/blog'', ''/a'', ''/b''], maxBlogs := 2\<rparr>)
       ''https://blog.example'' (Some sectionsHtml)
     = [''/blog'', ''/a'']
   \<and> discoverBlogSubdirectories examplePlatform
       (cliOptions\<lparr>customBlogPaths := Some [''/a'', ''/b'', ''/c''], maxBlogs := 2\<rparr>)
       ''https://blog.example'' None
     = [''/a'', ''/b'']"
proof -
  let ?o1 = "cliOptions\<lparr>customBlogPaths := Some [''/a'', ''/blog'', ''/a'', ''/b''], maxBlogs := 2\<rparr>"
  let ?o2 = "cliOptions\<lparr>customBlogPaths := Some [''/a'', ''/b'', ''/c''], maxBlogs := 2\<rparr>"
  have e: "extractBlogLinksFromHTML examplePlatform sectionsHtml ''https://blog.example'' = [''/blog'']"
    by code_simp
  have n: "sectionsHtml \<noteq> []" by code_simp
  have o1: "customBlogPaths ?o1 = Some [''/a'', ''/blog'', ''/a'', ''/b''] \<and> 0 \<le> maxBlogs ?o1"
    by (simp add: cliOptions_def)
  have o2: "customBlogPaths ?o2 = Some [''/a'', ''/b'', ''/c''] \<and> 0 \<le> maxBlogs ?o2"
    by (simp add: cliOptions_def)
  have m: "nat (maxBlogs ?o1) = 2" "nat (maxBlogs ?o2) = 2" by simp_all
  have 1: "discoverBlogSubdirectories examplePlatform ?o1 ''https://blog.example'' (Some sectionsHtml)
      = [''/blog'', ''/a'']"
    using custom_paths_appended [of ?o1 "[''/a'', ''/blog'', ''/a'', ''/b'']" examplePlatform
        "''https://blog.example''" "Some sectionsHtml"] o1 n
    by (simp add: e m)
  have 2: "discoverBlogSubdirectories examplePlatform ?o2 ''https://blog.example'' None
      = [''/a'', ''/b'']"
    using custom_paths_appended [of ?o2 "[''/a'', ''/b'', ''/c'']" examplePlatform
        "''https://blog.example''" None] o2
    by (simp add: m)
  from 1 2 show ?thesis by simp
qed

subsection \<open>parseArgs\<close>

lemma parseArgs_loop_flag:
  assumes "isFlagOption arg"
  shows "\<exists>opts2. parseArgs_loop opts urls (arg # rest) = parseArgs_loop opts2 urls rest"
  using assms unfolding isFlagOption_def by (elim disjE) (simp_all, blast+)

lemma parseArgs_loop_other:
  assumes "\<not> isFlagOption arg" "\<not> isValueOption arg"
  shows "parseArgs_loop opts urls (arg # rest)
       = (if isUrlArg arg then parseArgs_loop opts (urls @ [arg]) rest
          else parseArgs_loop opts urls rest)"
proof -
  from assms have n: "\<not> (arg = ''--help'' \<or> arg = ''-h'')" "\<not> (arg = ''--version'' \<or> arg = ''-V'')"
    "\<not> (arg = ''--verbose'' \<or> arg = ''-v'')" "\<not> (arg = ''--no-blogs'' \<or> arg = ''--skip-blogs'')"
    "arg \<noteq> ''--max-blogs''" "arg \<noteq> ''--blog-paths''" "arg \<noteq> ''--timeout''"
    by (simp_all add: isFlagOption_def isValueOption_def)
  show ?thesis
    by (subst parseArgs_loop.simps) (simp only: n if_False isUrlArg_def)
qed

lemma parseArgs_loop_number:
  "parseArgs_loop opts urls (''--max-blogs'' # v # rest) =
     (case parseInt v of
        None \<Rightarrow> Inl (''--max-blogs requires a positive number, got: '' @ v)
      | Some n \<Rightarrow> if n \<le> 0 then Inl (''--max-blogs requires a positive number, got: '' @ v)
                  else parseArgs_loop (opts\<lparr>maxBlogs := n\<rparr>) urls rest)"
  "parseArgs_loop opts urls (''--timeout'' # v # rest) =
     (case parseInt v of
        None \<Rightarrow> Inl (''--timeout requires a positive number, got: '' @ v)
      | Some n \<Rightarrow> if n \<le> 0 then Inl (''--timeout requires a positive number, got: '' @ v)
                  else parseArgs_loop (opts\<lparr>timeout := n\<rparr>) urls rest)"
  by simp_all

lemma parseArgs_loop_blog_paths:
  "parseArgs_loop opts urls (''--blog-paths'' # v # rest) =
     (if trim v = [] then Inl ''--blog-paths requires a value''
      else parseArgs_loop
             (opts\<lparr>customBlogPaths :=
                Some (filterBoolean (map trim (split_on (\<lambda>c. c = CHR '','' \<or> c = CHR ''|'') v)))\<rparr>)
             urls rest)"
  by simp

lemma parseArgs_loop_missing:
  assumes "isValueOption arg"
  shows "\<exists>e. parseArgs_loop opts urls [arg] = Inl e"
  using assms unfolding isValueOption_def by (elim disjE) simp_all

lemma parseArgs_loop_value:
  assumes "isValueOption arg"
  shows "(\<exists>e. parseArgs_loop opts urls (arg # v # rest) = Inl e)
       \<or> (\<exists>opts2. parseArgs_loop opts urls (arg # v # rest) = parseArgs_loop opts2 urls rest)"
proof -
  consider "arg = ''--max-blogs''" | "arg = ''--blog-paths''" | "arg = ''--timeout''"
    using assms unfolding isValueOption_def by (elim disjE) simp_all
  then show ?thesis
  proof cases
    case 1
    show ?thesis unfolding 1 parseArgs_loop_number
      by (cases "parseInt v") auto
  next
    case 2
    show ?thesis unfolding 2 parseArgs_loop_blog_paths
      by (cases "trim v = []") auto
  next
    case 3
    show ?thesis unfolding 3 parseArgs_loop_number
      by (cases "parseInt v") auto
  qed
qed

declare parseArgs_loop.simps [simp del]

lemma option_names_no_url:
  assumes "isFlagOption arg \<or> isValueOption arg"
  shows "\<not> isUrlArg arg"
  using assms unfolding isFlagOption_def isValueOption_def isUrlArg_def
  by (elim disjE) simp_all

lemma flag_not_value: "isFlagOption arg \<Longrightarrow> \<not> isValueOption arg"
  unfolding isFlagOption_def isValueOption_def by (elim disjE) simp_all

lemma unconsumed_plain:
  assumes "\<not> isValueOption arg"
  shows "unconsumed (arg # rest) = arg # unconsumed rest"
  using assms by (cases rest) simp_all

lemma unconsumed_value:
  assumes "isValueOption arg"
  shows "unconsumed (arg # v # rest) = arg # unconsumed rest"
  using assms by simp

lemma parseArgs_loop_urls:
  "parseArgs_loop opts urls args = Inr (opts', urls') \<Longrightarrow>
     urls' = urls @ filter isUrlArg (unconsumed args)"
proof (induction args arbitrary: opts urls rule: length_induct)
  case (1 args)
  have IH: "urls' = us @ filter isUrlArg (unconsumed ys)"
    if "length ys < length args" "parseArgs_loop os us ys = Inr (opts', urls')" for ys os us
    using "1.IH" that by blast
  show ?case
  proof (cases args)
    case Nil
    with "1.prems" show ?thesis by (simp add: parseArgs_loop.simps)
  next
    case (Cons arg rest)
    consider (flag) "isFlagOption arg" | (val) "isValueOption arg"
      | (other) "\<not> isFlagOption arg \<and> \<not> isValueOption arg" by blast
    then show ?thesis
    proof cases
      case flag
      then obtain opts2 where "parseArgs_loop opts urls (arg # rest) = parseArgs_loop opts2 urls rest"
        using parseArgs_loop_flag by blast
      with "1.prems" Cons have "urls' = urls @ filter isUrlArg (unconsumed rest)"
        by (intro IH[of rest opts2 urls]) simp_all
      moreover from flag have "\<not> isUrlArg arg" by (intro option_names_no_url) blast
      moreover from flag have "unconsumed (arg # rest) = arg # unconsumed rest"
        by (intro unconsumed_plain flag_not_value)
      ultimately show ?thesis by (simp add: Cons)
    next
      case val
      then have nurl: "\<not> isUrlArg arg" by (intro option_names_no_url) blast
      show ?thesis
      proof (cases rest)
        case Nil
        with val "1.prems" Cons show ?thesis
          using parseArgs_loop_missing[of arg opts urls] by auto
      next
        case r: (Cons v rest')
        from parseArgs_loop_value[OF val, of opts urls v rest'] "1.prems" Cons r
        obtain opts2 where "parseArgs_loop opts2 urls rest' = Inr (opts', urls')"
          by auto
        then have "urls' = urls @ filter isUrlArg (unconsumed rest')"
          by (intro IH[of rest' opts2 urls]) (simp_all add: Cons r)
        with nurl val show ?thesis by (simp add: Cons r)
      qed
    next
      case other
      then have step: "parseArgs_loop opts urls (arg # rest)
          = (if isUrlArg arg then parseArgs_loop opts (urls @ [arg]) rest else parseArgs_loop opts urls rest)"
        by (intro parseArgs_loop_other) blast+
      from other have u: "unconsumed (arg # rest) = arg # unconsumed rest"
        by (intro unconsumed_plain) blast
      show ?thesis
      proof (cases "isUrlArg arg")
        case True
        with step "1.prems" Cons have "parseArgs_loop opts (urls @ [arg]) rest = Inr (opts', urls')" by simp
        then have "urls' = (urls @ [arg]) @ filter isUrlArg (unconsumed rest)"
          by (intro IH[of rest opts "urls @ [arg]"]) (simp_all add: Cons)
        with True show ?thesis by (simp add: Cons u)
      next
        case False
        with step "1.prems" Cons have "parseArgs_loop opts urls rest = Inr (opts', urls')" by simp
        then have "urls' = urls @ filter isUrlArg (unconsumed rest)"
          by (intro IH[of rest opts urls]) (simp_all add: Cons)
        with False show ?thesis by (simp add: Cons u)
      qed
    qed
  qed
qed

lemma parseArgs_loop_total:
  assumes "\<forall>a \<in> set args. \<not> isValueOption a"
  shows "\<exists>opts'. parseArgs_loop opts urls args = Inr (opts', urls @ filter isUrlArg args)"
  using assms
proof (induction args arbitrary: opts urls)
  case Nil
  then show ?case by (simp add: parseArgs_loop.simps)
next
  case (Cons arg rest)
  from Cons.prems have nv: "\<not> isValueOption arg" and rest: "\<forall>a \<in> set rest. \<not> isValueOption a"
    by simp_all
  note IH = Cons.IH[OF rest]
  show ?case
  proof (cases "isFlagOption arg")
    case True
    then obtain opts2 where "parseArgs_loop opts urls (arg # rest) = parseArgs_loop opts2 urls rest"
      using parseArgs_loop_flag by blast
    moreover from True have "\<not> isUrlArg arg" by (intro option_names_no_url) blast
    ultimately show ?thesis using IH[of opts2 urls] by simp
  next
    case False
    with nv have step: "parseArgs_loop opts urls (arg # rest)
          = (if isUrlArg arg then parseArgs_loop opts (urls @ [arg]) rest else parseArgs_loop opts urls rest)"
      by (intro parseArgs_loop_other)
    show ?thesis
    proof (cases "isUrlArg arg")
      case True
      with step IH[of opts "urls @ [arg]"] show ?thesis by simp
    next
      case False
      with step IH[of opts urls] show ?thesis by simp
    qed
  qed
qed

text \<open>
  Claim C10 says that for every argument list \<^verbatim>\<open>parseArgs\<close> returns exactly the tokens
  that start with \<^verbatim>\<open>http://\<close> or \<^verbatim>\<open>https://\<close>. A token that follows \<^verbatim>\<open>--blog-paths\<close> is
  read with \<^verbatim>\<open>args[++i]\<close> as the value of the option and never reaches the test of line
  118: here the only such token of the argument list is not returned.
\<close>

theorem parseArgs_value_url_not_returned:
  "parseArgs cliOptions [''--blog-paths'', ''https://a.example'']
     = Inr (cliOptions\<lparr>customBlogPaths := Some [''https://a.example'']\<rparr>, [])
   \<and> filter (\<lambda>a. startsWith a ''http://'' \<or> startsWith a ''https://'')
        [''--blog-paths'', ''https://a.example'']
     = [''https://a.example'']"
  by code_simp

text \<open>
  Claim C10, amended. When \<^verbatim>\<open>parseArgs\<close> raises no usage error, it returns exactly the
  tokens that start with \<^verbatim>\<open>http://\<close> or \<^verbatim>\<open>https://\<close> and are not consumed as the value of
  an option, in input order. A token that the loop reads and that is neither an option
  nor such a URL (an unknown flag, a bare host name) is skipped: the run goes on as if it
  were absent. On an argument list without \<^verbatim>\<open>--max-blogs\<close>, \<^verbatim>\<open>--blog-paths\<close> and
  \<^verbatim>\<open>--timeout\<close>, \<^verbatim>\<open>parseArgs\<close> raises no error and returns exactly the URL tokens.
\<close>

theorem parseArgs_positional_urls:
  "(parseArgs opts args = Inr (opts', urls) \<longrightarrow> urls = filter isUrlArg (unconsumed args))
   \<and> (\<not> isFlagOption t \<and> \<not> isValueOption t \<and> \<not> isUrlArg t
        \<longrightarrow> parseArgs_loop opts us (t # rest) = parseArgs_loop opts us rest)
   \<and> ((\<forall>a \<in> set args. \<not> isValueOption a)
        \<longrightarrow> (\<exists>opts2. parseArgs opts args = Inr (opts2, filter isUrlArg args)))"
proof (intro conjI impI)
  assume "parseArgs opts args = Inr (opts', urls)"
  then show "urls = filter isUrlArg (unconsumed args)"
    unfolding parseArgs_def using parseArgs_loop_urls[of opts "[]" args opts' urls] by simp
next
  assume "\<not> isFlagOption t \<and> \<not> isValueOption t \<and> \<not> isUrlArg t"
  then show "parseArgs_loop opts us (t # rest) = parseArgs_loop opts us rest"
    using parseArgs_loop_other[of t opts us rest] by simp
next
  assume "\<forall>a \<in> set args. \<not> isValueOption a"
  then show "\<exists>opts2. parseArgs opts args = Inr (opts2, filter isUrlArg args)"
    unfolding parseArgs_def using parseArgs_loop_total[of args opts "[]"] by simp
qed

theorem parseArgs_positional_urls_witness:
  "filter isUrlArg (unconsumed
       [''--blog-paths'', ''https://a.example'', ''https://b.example'', ''--bogus'', ''example.com''])
     = [''https://b.example'']
   \<and> parseArgs_loop cliOptions [] [''--bogus'', ''https://c.example'']
     = parseArgs_loop cliOptions [] [''https://c.example'']
   \<and> (\<exists>opts2. parseArgs cliOptions [''--bogus'', ''https://c.example'', ''example.com'', ''-v'']
               = Inr (opts2, [''https://c.example'']))"
proof -
  let ?args = "[''--blog-paths'', ''https://a.example'', ''https://b.example'', ''--bogus'', ''example.com'']"
  let ?o = "cliOptions\<lparr>customBlogPaths := Some [''https://a.example'']\<rparr>"
  have run: "parseArgs cliOptions ?args = Inr (?o, [''https://b.example''])" by code_simp
  have pos: "[''https://b.example''] = filter isUrlArg (unconsumed ?args)"
    using parseArgs_positional_urls [where opts = cliOptions and args = ?args and opts' = ?o
        and urls = "[''https://b.example'']"] run by blast
  have b: "\<not> isFlagOption ''--bogus'' \<and> \<not> isValueOption ''--bogus'' \<and> \<not> isUrlArg ''--bogus''"
    by code_simp
  have skip: "parseArgs_loop cliOptions [] [''--bogus'', ''https://c.example'']
     = parseArgs_loop cliOptions [] [''https://c.example'']"
    using parseArgs_positional_urls [where t = "''--bogus''" and opts = cliOptions and us = "[]"
        and rest = "[''https://c.example'']"] b
    by blast
  let ?a3 = "[''--bogus'', ''https://c.example'', ''example.com'', ''-v'']"
  have nv: "\<forall>a \<in> set ?a3. \<not> isValueOption a" by code_simp
  have f: "filter isUrlArg ?a3 = [''https://c.example'']" by code_simp
  have tot: "\<exists>opts2. parseArgs cliOptions ?a3 = Inr (opts2, [''https://c.example''])"
    using parseArgs_positional_urls [where opts = cliOptions and args = ?a3] nv unfolding f by blast
  from pos skip tot show ?thesis by simp
qed

subsection \<open>The report and the exit code of main\<close>

lemma tally_loop:
  "foldl tallyStep (rs0, n, e) rs =
     (rs0 @ rs,
      n + sum_list (map (\<lambda>r. length (result_feeds r)) (filter (\<lambda>r. \<not> errorTruthy r) rs)),
      e \<or> (\<exists>r \<in> set rs. errorTruthy r))"
  by (induction rs arbitrary: rs0 n e) (auto simp: tallyStep_def)

lemma mainReport_fields:
  "success (fst (mainReport rs)) = (\<not> (\<exists>r \<in> set rs. errorTruthy r))"
  "results (fst (mainReport rs)) = rs"
  "partialResults (fst (mainReport rs))
     = (if (\<exists>r \<in> set rs. errorTruthy r) \<and> 0 < totalFeeds rs then Some True else None)"
  "snd (mainReport rs)
     = (if \<exists>r \<in> set rs. errorTruthy r then 2 else if totalFeeds rs = 0 then 1 else 0)"
  unfolding mainReport_def tally_loop totalFeeds_def[symmetric]
  by (simp_all add: Let_def)


lemma total_pos_iff:
  "0 < sum_list (map (\<lambda>r. length (result_feeds r)) xs) \<longleftrightarrow> (\<exists>r \<in> set xs. result_feeds r \<noteq> [])"
  by (induction xs) auto


lemma findRSSFeeds_try_returns:
  "\<exists>fs. findRSSFeeds_try P opts d baseUrl
         = Inr \<lparr>result_url = baseUrl, result_feeds = fs, result_error = None\<rparr>"
  by (simp add: findRSSFeeds_try_def Let_def split: prod.splits)

lemma findRSSFeeds_no_error:
  assumes "findRSSFeeds P opts baseUrl = Inr r"
  shows "result_error r = None \<and> result_url r = baseUrl"
proof (cases "abortSignalTimeout (timeout opts)")
  case (Inl e)
  with assms show ?thesis by (simp add: findRSSFeeds_def Let_def)
next
  case (Inr d)
  obtain fs where "findRSSFeeds_try P opts d baseUrl
      = Inr \<lparr>result_url = baseUrl, result_feeds = fs, result_error = None\<rparr>"
    using findRSSFeeds_try_returns by blast
  with assms Inr have "r = \<lparr>result_url = baseUrl, result_feeds = fs, result_error = None\<rparr>"
    by (simp add: findRSSFeeds_def Let_def)
  then show ?thesis by simp
qed

lemma promiseAll_Inr: "promiseAll ps = Inr xs \<Longrightarrow> ps = map Inr xs"
  by (induction ps arbitrary: xs rule: promiseAll.induct) (auto split: sum.splits)



lemma scan_results:
  assumes "promiseAll (map (findRSSFeeds P opts) urls) = Inr rs"
  shows "map result_url rs = urls \<and> (\<forall>r \<in> set rs. result_error r = None)"
proof -
  from assms have m: "map (findRSSFeeds P opts) urls = map Inr rs"
    by (rule promiseAll_Inr)
  then have len: "length rs = length urls"
    by (metis length_map)
  have each: "findRSSFeeds P opts (urls ! i) = Inr (rs ! i)" if "i < length urls" for i
    using m that len by (metis nth_map)
  have "result_url (rs ! i) = urls ! i \<and> result_error (rs ! i) = None" if "i < length urls" for i
    using findRSSFeeds_no_error[OF each[OF that]] by simp
  with len show ?thesis
    by (auto simp: list_eq_iff_nth_eq in_set_conv_nth)
qed

text \<open>What a run prints and how it exits, by the cases of \<^verbatim>\<open>main\<close>.\<close>

lemma mainModule_cases:
  "parseArgs cliOptions args = Inl e \<Longrightarrow> mainModule P args = (None, 2)"
  "parseArgs cliOptions args = Inr (opts, urls) \<Longrightarrow> version opts \<or> help_opt opts
     \<Longrightarrow> mainModule P args = (None, 0)"
  "parseArgs cliOptions args = Inr (opts, urls) \<Longrightarrow> \<not> version opts \<Longrightarrow> \<not> help_opt opts \<Longrightarrow> urls = []
     \<Longrightarrow> mainModule P args = (None, 2)"
  "parseArgs cliOptions args = Inr (opts, urls) \<Longrightarrow> \<not> version opts \<Longrightarrow> \<not> help_opt opts \<Longrightarrow> urls \<noteq> []
     \<Longrightarrow> mainModule P args
         = (case promiseAll (map (findRSSFeeds P opts) urls) of
              Inl e \<Rightarrow> (None, 2)
            | Inr rs \<Rightarrow> (Some (fst (mainReport rs)), snd (mainReport rs)))"
  by (auto simp: mainModule_def main_def split: sum.splits prod.splits)

lemma mainModule_report:
  assumes "mainModule P args = (Some report, exitCode)"
  shows "\<exists>opts urls rs. parseArgs cliOptions args = Inr (opts, urls)
           \<and> promiseAll (map (findRSSFeeds P opts) urls) = Inr rs
           \<and> report = fst (mainReport rs) \<and> exitCode = snd (mainReport rs)"
proof (cases "parseArgs cliOptions args")
  case (Inl e)
  with assms show ?thesis by (simp add: mainModule_cases(1))
next
  case (Inr ou)
  obtain opts urls where ou: "ou = (opts, urls)" by (cases ou)
  note p = Inr[unfolded ou]
  show ?thesis
  proof (cases "version opts \<or> help_opt opts")
    case True
    with assms p show ?thesis by (simp add: mainModule_cases(2))
  next
    case nvh: False
    show ?thesis
    proof (cases "urls = []")
      case True
      with assms p nvh show ?thesis by (simp add: mainModule_cases(3))
    next
      case False
      with p nvh have m: "mainModule P args
         = (case promiseAll (map (findRSSFeeds P opts) urls) of
              Inl e \<Rightarrow> (None, 2)
            | Inr rs \<Rightarrow> (Some (fst (mainReport rs)), snd (mainReport rs)))"
        by (intro mainModule_cases(4)) simp_all
      show ?thesis
      proof (cases "promiseAll (map (findRSSFeeds P opts) urls)")
        case (Inl e)
        with assms m show ?thesis by simp
      next
        case (Inr rs)
        with assms m p show ?thesis by auto
      qed
    qed
  qed
qed

lemma report_fields_shaped:
  assumes "\<forall>r \<in> set rs. result_error r \<noteq> Some [] \<and> (result_error r \<noteq> None \<longrightarrow> result_feeds r = [])"
  shows "(success (fst (mainReport rs)) \<longleftrightarrow> (\<forall>r \<in> set rs. result_error r = None))
       \<and> partialResults (fst (mainReport rs))
           = (if \<not> success (fst (mainReport rs)) \<and> (\<exists>r \<in> set rs. result_feeds r \<noteq> [])
              then Some True else None)
       \<and> results (fst (mainReport rs)) = rs"
proof -
  have t: "errorTruthy r \<longleftrightarrow> result_error r \<noteq> None" if "r \<in> set rs" for r
    using assms that by (auto simp: errorTruthy_def split: option.splits)
  then have s: "(\<exists>r \<in> set rs. errorTruthy r) \<longleftrightarrow> \<not> (\<forall>r \<in> set rs. result_error r = None)"
    by blast
  have "sum_list (map (\<lambda>r. length (result_feeds r)) (filter (\<lambda>r. \<not> errorTruthy r) rs))
      = sum_list (map (\<lambda>r. length (result_feeds r)) rs)"
    using assms t
  proof (induction rs)
    case Nil
    then show ?case by simp
  next
    case (Cons r rs)
    then show ?case by (cases "errorTruthy r") auto
  qed
  then have "0 < totalFeeds rs \<longleftrightarrow> (\<exists>r \<in> set rs. result_feeds r \<noteq> [])"
    by (simp add: totalFeeds_def total_pos_iff)
  with s show ?thesis by (simp add: mainReport_fields)
qed





text \<open>
  Claim C5. In the report of a run, \<open>success\<close> holds exactly when no result has an error,
  \<open>partialResults\<close> is present, and then true, exactly when \<open>success\<close> is false and some
  result has a feed, and the results are those of the input URLs, one for each, in input
  order. The first part states this for the step from results to report, over results
  as \<^verbatim>\<open>findRSSFeeds\<close> builds them (an error is a non-empty string and comes with no feeds);
  the second part states it for every run of the program that prints a report.
\<close>

theorem run_report_fields:
  "((\<forall>r \<in> set rs. result_error r \<noteq> Some [] \<and> (result_error r \<noteq> None \<longrightarrow> result_feeds r = []))
      \<longrightarrow> (success (fst (mainReport rs)) \<longleftrightarrow> (\<forall>r \<in> set rs. result_error r = None))
          \<and> partialResults (fst (mainReport rs))
              = (if \<not> success (fst (mainReport rs)) \<and> (\<exists>r \<in> set rs. result_feeds r \<noteq> [])
                 then Some True else None)
          \<and> results (fst (mainReport rs)) = rs)
   \<and> (mainModule P args = (Some report, exitCode)
      \<longrightarrow> (success report \<longleftrightarrow> (\<forall>r \<in> set (results report). result_error r = None))
          \<and> partialResults report
              = (if \<not> success report \<and> (\<exists>r \<in> set (results report). result_feeds r \<noteq> [])
                 then Some True else None)
          \<and> (\<exists>opts urls. parseArgs cliOptions args = Inr (opts, urls)
                \<and> map result_url (results report) = urls))"
proof (intro conjI impI)
  assume "\<forall>r \<in> set rs. result_error r \<noteq> Some [] \<and> (result_error r \<noteq> None \<longrightarrow> result_feeds r = [])"
  from report_fields_shaped[OF this]
  show "success (fst (mainReport rs)) \<longleftrightarrow> (\<forall>r \<in> set rs. result_error r = None)"
    and "partialResults (fst (mainReport rs))
              = (if \<not> success (fst (mainReport rs)) \<and> (\<exists>r \<in> set rs. result_feeds r \<noteq> [])
                 then Some True else None)"
    and "results (fst (mainReport rs)) = rs"
    by blast+
next
  assume run: "mainModule P args = (Some report, exitCode)"
  then obtain opts urls rs' where p: "parseArgs cliOptions args = Inr (opts, urls)"
    and all: "promiseAll (map (findRSSFeeds P opts) urls) = Inr rs'"
    and r: "report = fst (mainReport rs')"
    using mainModule_report by blast
  from scan_results[OF all] have urls: "map result_url rs' = urls"
    and none: "\<forall>r \<in> set rs'. result_error r = None" by simp_all
  from none have shaped: "\<forall>r \<in> set rs'. result_error r \<noteq> Some [] \<and> (result_error r \<noteq> None \<longrightarrow> result_feeds r = [])"
    by simp
  note f = report_fields_shaped[OF shaped]
  from f have res: "results report = rs'" by (simp add: r)
  from f res show "success report \<longleftrightarrow> (\<forall>r \<in> set (results report). result_error r = None)"
    unfolding r by simp
  from f res show "partialResults report
              = (if \<not> success report \<and> (\<exists>r \<in> set (results report). result_feeds r \<noteq> [])
                 then Some True else None)"
    unfolding r by simp
  from p res urls show "\<exists>opts urls. parseArgs cliOptions args = Inr (opts, urls)
                \<and> map result_url (results report) = urls"
    by auto
qed

theorem run_report_fields_witness:
  "partialResults (fst (mainReport
      [\<lparr>result_url = ''https://good.example'',
        result_feeds = [\<lparr>feed_url = ''https://good.example/feed.atom'', feed_title = ''Good'',
                         feed_type = atom\<rparr>],
        result_error = None\<rparr>,
       \<lparr>result_url = ''https://bad.example'', result_feeds = [], result_error = Some ''fetch failed''\<rparr>]))
     = Some True
   \<and> \<not> success (fst (mainReport
      [\<lparr>result_url = ''https://good.example'',
        result_feeds = [\<lparr>feed_url = ''https://good.example/feed.atom'', feed_title = ''Good'',
                         feed_type = atom\<rparr>],
        result_error = None\<rparr>,
       \<lparr>result_url = ''https://bad.example'', result_feeds = [], result_error = Some ''fetch failed''\<rparr>]))
   \<and> (\<exists>opts. parseArgs cliOptions [''-v'', ''https://bad.example''] = Inr (opts, [''https://bad.example'']))
   \<and> mainModule examplePlatform [''-v'', ''https://bad.example'']
       = (Some \<lparr>success = True, partialResults = None,
                results = [\<lparr>result_url = ''https://bad.example'', result_feeds = [],
                            result_error = None\<rparr>]\<rparr>, 1)"
proof -
  let ?good = "\<lparr>result_url = ''https://good.example'',
        result_feeds = [\<lparr>feed_url = ''https://good.example/feed.atom'', feed_title = ''Good'',
                         feed_type = atom\<rparr>],
        result_error = None\<rparr>"
  let ?bad = "\<lparr>result_url = ''https://bad.example'', result_feeds = [], result_error = Some ''fetch failed''\<rparr>"
  have shaped: "\<forall>r \<in> set [?good, ?bad].
      result_error r \<noteq> Some [] \<and> (result_error r \<noteq> None \<longrightarrow> result_feeds r = [])"
    by simp
  note a = run_report_fields [where rs = "[?good, ?bad]"]
  from a shaped have s: "\<not> success (fst (mainReport [?good, ?bad]))" by simp
  from a shaped s have p: "partialResults (fst (mainReport [?good, ?bad])) = Some True" by simp
  let ?report = "\<lparr>success = True, partialResults = None,
                results = [\<lparr>result_url = ''https://bad.example'', result_feeds = [],
                            result_error = None\<rparr>]\<rparr>"
  have run: "mainModule examplePlatform [''-v'', ''https://bad.example''] = (Some ?report, 1)"
    by code_simp
  from run_report_fields [where P = examplePlatform and args = "[''-v'', ''https://bad.example'']"
      and report = ?report and exitCode = 1] run
  have "\<exists>opts urls. parseArgs cliOptions [''-v'', ''https://bad.example''] = Inr (opts, urls)
      \<and> map result_url (results ?report) = urls"
    by blast
  then have u: "\<exists>opts. parseArgs cliOptions [''-v'', ''https://bad.example''] = Inr (opts, [''https://bad.example''])"
    by simp
  from s p u run show ?thesis by simp
qed

subsection \<open>Failures of the root fetch\<close>

text \<open>
  Claim C1. On the input \<^verbatim>\<open>https://good.example\<close>, \<^verbatim>\<open>https://bad.example\<close>, where the page of
  the first declares one Atom link that validates and every fetch of the second rejects
  with a network error, the claim expects \<open>success = False\<close>, \<open>partialResults = True\<close> and
  a non-empty error for the second URL. The run below shows what the program does: the
  \<^verbatim>\<open>catch\<close> of \<^verbatim>\<open>scanURLForFeeds\<close> (lines 332 to 335) swallows the rejection, so the result
  of the second URL has no error, \<open>success\<close> is true and \<open>partialResults\<close> is absent. The
  feeds are as the claim says: one for the first URL, none for the second.
\<close>

theorem good_bad_run_reports_success:
  "snd (network examplePlatform ''https://bad.example'') = Inl (Error ''fetch failed'')
   \<and> mainModule examplePlatform [''https://good.example'', ''https://bad.example'']
     = (Some \<lparr>success = True, partialResults = None,
              results =
                [\<lparr>result_url = ''https://good.example'',
                  result_feeds = [\<lparr>feed_url = ''https://good.example/feed.atom'',
                                   feed_title = ''Good'', feed_type = atom\<rparr>],
                  result_error = None\<rparr>,
                 \<lparr>result_url = ''https://bad.example'', result_feeds = [],
                  result_error = None\<rparr>]\<rparr>,
        0)"
  by code_simp

text \<open>
  Claim C2. When the deadline of a URL expires while work for it is outstanding, the
  claim expects the error \<^verbatim>\<open>Timeout\<close> and no feeds. On the example network the fetch of
  \<^verbatim>\<open>https://slow.example\<close> is aborted at the deadline of 10000 ms; the result has no
  feeds and no error. For \<^verbatim>\<open>https://late.example\<close> the deadline expires during the
  validation of the candidates; the result keeps the feed validated before and has no
  error either. The abort is caught in \<^verbatim>\<open>scanURLForFeeds\<close> (lines 324 and 332) and never
  reaches the \<^verbatim>\<open>catch\<close> block of \<^verbatim>\<open>findRSSFeeds\<close>, the only place that writes an error.
\<close>

theorem deadline_expiry_reports_no_error:
  "abortSignalTimeout (timeout cliOptions) = Inr 10000
   \<and> fetch examplePlatform 10000 0 ''https://slow.example'' = (Inl timeoutReason, 10000)
   \<and> findRSSFeeds examplePlatform cliOptions ''https://slow.example''
     = Inr \<lparr>result_url = ''https://slow.example'', result_feeds = [], result_error = None\<rparr>
   \<and> snd (scanURLForFeeds examplePlatform 10000 0 ''https://late.example'') = 10000
   \<and> findRSSFeeds examplePlatform cliOptions ''https://late.example''
     = Inr \<lparr>result_url = ''https://late.example'',
        result_feeds = [\<lparr>feed_url = ''https://late.example/feed.atom'', feed_title = ''Good'',
                         feed_type = atom\<rparr>],
        result_error = None\<rparr>"
  by code_simp

end
